theory Spec2Isabelle
  imports Main "HOL-Library.Sublist" "HOL-Library.Multiset" "HOL-Library.Char_ord"
    "HOL-Library.List_Lexorder"
begin

section \<open>Errors\<close>

text \<open>
  A Go \<open>error\<close> value is modelled by its message; a run-time panic (a failed type
  assertion, a nil dereference, an index out of range) is a separate constructor, since
  it unwinds through the callers and is never wrapped.
\<close>

datatype error = Error string | Panic string

text \<open>\<open>fmt.Errorf("<pre>%w", err)\<close>: the message of \<open>err\<close> behind a prefix.\<close>

fun wrap :: "string \<Rightarrow> error \<Rightarrow> error" where
  "wrap pre (Error m) = Error (pre @ m)"
| "wrap pre (Panic m) = Panic m"

section \<open>The functions of Go's \<open>strings\<close> package that the file calls\<close>

text \<open>
  Go strings are byte sequences and every function below works on bytes, so a Go string
  is a \<open>string\<close> (a list of 8-bit characters).
\<close>

definition HasPrefix :: "string \<Rightarrow> string \<Rightarrow> bool" where
  "HasPrefix s p = prefix p s"

definition TrimPrefix :: "string \<Rightarrow> string \<Rightarrow> string" where
  "TrimPrefix s p = (if HasPrefix s p then drop (length p) s else s)"

text \<open>\<open>strings.Index\<close>: the index of the first instance of \<open>sub\<close>, or \<open>-1\<close>.\<close>

fun indexFrom :: "nat \<Rightarrow> string \<Rightarrow> string \<Rightarrow> int" where
  "indexFrom i [] sub = (if sub = [] then int i else - 1)"
| "indexFrom i (c # cs) sub =
     (if prefix sub (c # cs) then int i else indexFrom (Suc i) cs sub)"

definition Index :: "string \<Rightarrow> string \<Rightarrow> int" where
  "Index s sub = indexFrom 0 s sub"

text \<open>
  \<open>strings.LastIndex\<close>: the index of the last instance of \<open>sub\<close>, or \<open>-1\<close>; the search
  runs from the last position where \<open>sub\<close> fits down to position 0.
\<close>

fun lastIndexFrom :: "nat \<Rightarrow> string \<Rightarrow> string \<Rightarrow> int" where
  "lastIndexFrom 0 s sub = (if prefix sub s then 0 else - 1)"
| "lastIndexFrom (Suc i) s sub =
     (if prefix sub (drop (Suc i) s) then int (Suc i) else lastIndexFrom i s sub)"

definition LastIndex :: "string \<Rightarrow> string \<Rightarrow> int" where
  "LastIndex s sub =
     (if length s < length sub then - 1 else lastIndexFrom (length s - length sub) s sub)"

lemma indexFrom_range:
  "indexFrom i s sub = m \<Longrightarrow> 0 \<le> m \<Longrightarrow> int i \<le> m \<and> nat m - i + length sub \<le> length s"
proof (induction i s sub arbitrary: m rule: indexFrom.induct)
  case (1 i sub)
  then show ?case by (auto split: if_splits)
next
  case (2 i c cs sub)
  show ?case
  proof (cases "prefix sub (c # cs)")
    case True
    then have "length sub \<le> length (c # cs)" by (rule prefix_length_le)
    with True 2 show ?thesis by auto
  next
    case False
    with 2 have "int (Suc i) \<le> m \<and> nat m - Suc i + length sub \<le> length cs" by auto
    then show ?thesis by auto
  qed
qed

lemma Index_range:
  "Index s sub = m \<Longrightarrow> 0 \<le> m \<Longrightarrow> nat m + length sub \<le> length s"
  using indexFrom_range [of 0 s sub m] by (simp add: Index_def)

text \<open>
  \<open>strings.Split(s, sep)\<close> for a separator that is not empty, as both calls of the file
  have it: cut at every instance of \<open>sep\<close>, left to right. (For the empty separator Go
  explodes \<open>s\<close> into its UTF-8 sequences; that case is not reached from this file and
  is left as the unsplit string here.)
\<close>

function Split :: "string \<Rightarrow> string \<Rightarrow> string list" where
  "Split s sep =
     (if sep = [] then [s]
      else (let m = Index s sep in
        if m < 0 then [s]
        else take (nat m) s # Split (drop (nat m + length sep) s) sep))"
  by pat_completeness auto
termination
proof (relation "measure (\<lambda>(s, sep). length s)")
  show "wf (measure (\<lambda>(s, sep). length s))" by simp
next
  fix s sep :: string and m :: int
  assume sep: "sep \<noteq> []" and m: "m = Index s sep" and nn: "\<not> m < 0"
  from m nn have "nat m + length sep \<le> length s" by (intro Index_range) auto
  moreover from sep have "0 < length sep" by simp
  ultimately have "length s - (nat m + length sep) < length s" by arith
  then show "((drop (nat m + length sep) s, sep), (s, sep)) \<in> measure (\<lambda>(s, sep). length s)"
    by simp
qed

text \<open>\<open>strings.Replace(s, old, new, -1)\<close> for \<open>old\<close> not empty: every instance of
  \<open>old\<close>, found left to right without overlap, becomes \<open>new\<close>. (With an empty \<open>old\<close>
  Go inserts \<open>new\<close> around every UTF-8 sequence; not reached from this file, and the
  unchanged string here.)\<close>

function Replace :: "string \<Rightarrow> string \<Rightarrow> string \<Rightarrow> string" where
  "Replace s old new =
     (if old = [] then s
      else if prefix old s then new @ Replace (drop (length old) s) old new
      else (case s of [] \<Rightarrow> [] | c # cs \<Rightarrow> c # Replace cs old new))"
  by pat_completeness auto
termination
proof (relation "measure (\<lambda>(s, old, new). length s)")
  show "wf (measure (\<lambda>(s, old, new). length s))" by simp
next
  fix s old new :: string
  assume "old \<noteq> []" and "prefix old s"
  then have "0 < length old" and "length old \<le> length s"
    by (simp_all add: prefix_length_le)
  then have "length s - length old < length s" by arith
  then show "((drop (length old) s, old, new), (s, old, new)) \<in> measure (\<lambda>(s, old, new). length s)"
    by simp
next
  fix s old new :: string and c cs
  assume "s = c # cs"
  then show "((cs, old, new), (s, old, new)) \<in> measure (\<lambda>(s, old, new). length s)"
    by simp
qed

text \<open>Go's slice expression \<open>s[i:]\<close> and index expression \<open>xs[i]\<close>: both panic out of
  range.\<close>

definition sliceFrom :: "string \<Rightarrow> int \<Rightarrow> error + string" where
  "sliceFrom s i =
     (if 0 \<le> i \<and> i \<le> int (length s) then Inr (drop (nat i) s)
      else Inl (Panic ''slice bounds out of range''))"

definition index :: "'a list \<Rightarrow> int \<Rightarrow> error + 'a" where
  "index xs i =
     (if 0 \<le> i \<and> i < int (length xs) then Inr (xs ! nat i)
      else Inl (Panic ''index out of range''))"

section \<open>The cluster state reported by \<open>eksctl get cluster\<close>\<close>

record Oidc =
  Issuer :: string

record Identity =
  Oidc :: Oidc

record ResourcesVpcConfig =
  ClusterSecurityGroupId :: string
  SecurityGroupIds :: "string list"

record ClusterState =
  Name :: string
  Identity :: Identity
  RoleArn :: string
  ResourcesVpcConfig :: ResourcesVpcConfig

text \<open>
  \<open>GetOIDCProviderARN\<close>: the account is the first colon-separated piece of the role ARN
  behind \<open>arn:aws:iam::\<close>, the region the first dot-separated piece of the issuer
  behind \<open>https://oidc.eks.\<close>, the id what follows the last slash of the issuer. The
  index and slice expressions of the source are kept with their panics.
\<close>

definition GetOIDCProviderARN :: "ClusterState \<Rightarrow> error + string" where
  "GetOIDCProviderARN s =
     (case index (Split (TrimPrefix (RoleArn s) ''arn:aws:iam::'') '':'') 0 of
        Inl e \<Rightarrow> Inl e
      | Inr account \<Rightarrow>
     (case index (Split (TrimPrefix (Issuer (Oidc (Identity s))) ''https://oidc.eks.'') ''.'') 0 of
        Inl e \<Rightarrow> Inl e
      | Inr region \<Rightarrow>
     (case sliceFrom (Issuer (Oidc (Identity s)))
             (LastIndex (Issuer (Oidc (Identity s))) ''/'' + 1) of
        Inl e \<Rightarrow> Inl e
      | Inr ident \<Rightarrow>
          Inr (''arn:aws:iam::'' @ account @ '':oidc-provider/oidc.eks.'' @ region
                 @ ''.amazonaws.com/id/'' @ ident))))"

definition GetSecurityGroupIDs :: "ClusterState \<Rightarrow> string list" where
  "GetSecurityGroupIDs s = SecurityGroupIds (ResourcesVpcConfig s)"

section \<open>The resource data store and the world the code runs in\<close>

text \<open>
  Modelled from the spec: the attribute-key constants (\<open>KeyKubeconfigPath\<close>, ...) are
  declared outside the file; the spec lists them as separate attributes of the store
  (cluster name, kubeconfig path, target-group ARNs, AWS-auth config map, OIDC provider
  URL, OIDC provider ARN, security group IDs), so they are distinct constructors here.
  \<open>KeyName\<close> stands for the literal \<open>"name"\<close>.
\<close>

datatype attr_key =
    KeyName | KeyKubeconfigPath | KeyTargetGroupARNs | KeyAWSAuthConfigMap
  | KeyOIDCProviderURL | KeyOIDCProviderARN | KeySecurityGroupIDs

text \<open>
  A value of type \<open>interface{}\<close> that is not nil: a string, a bool, a number (the file
  inspects none), a list, a \<open>[]string\<close>, a \<open>map[string]interface{}\<close>, or a
  \<open>*schema.Set\<close> (kept as the list its \<open>List()\<close> returns). \<open>VNil\<close> is a nil held
  under a key; a key that is missing reads as \<open>None\<close>. Both are a nil
  \<open>interface{}\<close> to the code.
\<close>

datatype ival =
    VNil | VString string | VBool bool | VNumber int | VList "ival list"
  | VStrings "string list" | VMap "string \<Rightarrow> ival option" | VSet "ival list"

type_synonym entry = "string \<Rightarrow> ival option"

type_synonym store = "attr_key \<Rightarrow> ival option"

text \<open>
  Modelled from the spec: the \<open>Cluster\<close> type is declared outside the file (name,
  region, and the IAM/OIDC settings parsed from a configuration blob); the file reads
  \<open>Name\<close> and \<open>Region\<close> and calls \<open>IAMWithOIDCEnabled\<close>.
\<close>

record Cluster =
  Name :: string
  Region :: string
  Spec :: string

datatype logarg = LStr string | LKey attr_key | LErr error

text \<open>What the code does to the outside, in program order.\<close>

datatype event =
    RunCommand "string list"
  | WriteKubeconfig string string
  | GetTargetGroupARNs string
  | LogPrintf string "logarg list"
  | SetAttr attr_key ival

record world =
  attrs :: store
  resourceId :: string
  events :: "event list"

datatype stat_result = StatOk | StatNotExist | StatError

text \<open>
  The collaborators declared outside the file, as parameters: the AWS lookup, the parser
  of the cluster configuration, the command builder and runner, \<open>json.Unmarshal\<close> at
  its two target types, \<open>os.Stat\<close>, \<open>sort.Slice\<close>, \<open>cmp.Diff\<close>, and the outcome of
  \<open>Set\<close> on the store (its schema check). A command is its argument vector.
\<close>

record 's env =
  AWSSessionFromResourceData :: "store \<Rightarrow> 's"
  getTargetGroupARNs :: "'s \<Rightarrow> string \<Rightarrow> error + string list"
  ReadCluster :: "store \<Rightarrow> error + Cluster"
  getClusterName :: "Cluster \<Rightarrow> string \<Rightarrow> string"
  doWriteKubeconfig :: "store \<Rightarrow> string \<Rightarrow> string \<Rightarrow> error option \<times> store"
  IAMWithOIDCEnabled :: "Cluster \<Rightarrow> error + bool"
  newEksctlCommandFromResourceWithRegionAndProfile :: "store \<Rightarrow> string list \<Rightarrow> error + string list"
  Run :: "string list \<Rightarrow> error + string"
  unmarshalIAM :: "string \<Rightarrow> error + entry list"
  unmarshalStates :: "string \<Rightarrow> error + ClusterState option list"
  osStat :: "string \<Rightarrow> stat_result"
  sortSlice :: "(entry \<Rightarrow> entry \<Rightarrow> bool) \<Rightarrow> entry list \<Rightarrow> entry list"
  cmpDiff :: "entry list \<Rightarrow> entry list \<Rightarrow> string"
  setError :: "attr_key \<Rightarrow> ival \<Rightarrow> error option"

definition logPrintf :: "string \<Rightarrow> logarg list \<Rightarrow> world \<Rightarrow> world" where
  "logPrintf fmt args w = w\<lparr>events := events w @ [LogPrintf fmt args]\<rparr>"

definition emit :: "event \<Rightarrow> world \<Rightarrow> world" where
  "emit e w = w\<lparr>events := events w @ [e]\<rparr>"

text \<open>\<open>d.Get(k)\<close> and \<open>d.Set(k, v)\<close> of the \<open>ReadWrite\<close> interface.\<close>

definition d_Get :: "world \<Rightarrow> attr_key \<Rightarrow> ival option" where
  "d_Get w k = attrs w k"

definition d_Set :: "'s env \<Rightarrow> attr_key \<Rightarrow> ival \<Rightarrow> world \<Rightarrow> error option \<times> world" where
  "d_Set env k v w =
     (case setError env k v of
        Some e \<Rightarrow> (Some e, emit (SetAttr k v) w)
      | None \<Rightarrow> (None, emit (SetAttr k v) (w\<lparr>attrs := (attrs w)(k \<mapsto> v)\<rparr>)))"

section \<open>Reading the cluster state: \<open>runGetCluster\<close>\<close>

text \<open>
  The scan of \<open>runGetCluster\<close> over the parsed \<open>[]*ClusterState\<close>: an entry is a
  pointer, nil where the JSON array holds \<open>null\<close>, and reading \<open>Name\<close> through a nil
  pointer panics. The scan stops at the first entry whose name is the target.
\<close>

fun findState :: "ClusterState option list \<Rightarrow> string \<Rightarrow> error + ClusterState option" where
  "findState [] name = Inr None"
| "findState (None # rest) name = Inl (Panic ''nil pointer dereference'')"
| "findState (Some s # rest) name =
     (if ClusterState.Name s = name then Inr (Some s) else findState rest name)"

definition runGetCluster :: "'s env \<Rightarrow> Cluster \<Rightarrow> world \<Rightarrow> (error + ClusterState) \<times> world" where
  "runGetCluster env cluster w =
     (case newEksctlCommandFromResourceWithRegionAndProfile env (attrs w)
             [''get'', ''cluster'', ''--name'', Cluster.Name cluster, ''-o'', ''json''] of
        Inl e \<Rightarrow> (Inl (wrap ''creating get imaidentitymapping command: '' e), w)
      | Inr cmd \<Rightarrow>
          (let w1 = emit (RunCommand cmd) w in
           case Run env cmd of
             Inl e \<Rightarrow> (Inl (wrap ''running get-cluster: '' e), w1)
           | Inr output \<Rightarrow>
               (case unmarshalStates env output of
                  Inl e \<Rightarrow> (Inl (wrap ''parsing get-cluster output as json : '' e), w1)
                | Inr states \<Rightarrow>
                    (let w2 = logPrintf ''parsed cluster state: %s'' [LStr output] w1 in
                     case findState states (Cluster.Name cluster) of
                       Inl e \<Rightarrow> (Inl e, w2)
                     | Inr None \<Rightarrow>
                         (Inl (Error (''no cluster found: '' @ Cluster.Name cluster)), w2)
                     | Inr (Some state) \<Rightarrow> (Inr state, w2)))))"

section \<open>\<open>loadOIDCProviderURLAndARN\<close>\<close>

definition loadOIDCProviderURLAndARN :: "'s env \<Rightarrow> Cluster \<Rightarrow> world \<Rightarrow> (error + unit) \<times> world" where
  "loadOIDCProviderURLAndARN env cluster w =
     (case IAMWithOIDCEnabled env cluster of
        Inl e \<Rightarrow> (Inl (wrap ''reading iam.withOIDC setting from cluster.yaml: '' e), w)
      | Inr iamWithOIDCEnabled \<Rightarrow>
          if \<not> iamWithOIDCEnabled then (Inr (), w)
          else
            (case runGetCluster env cluster w of
               (Inl e, w1) \<Rightarrow>
                 (Inl (wrap ''can not get iamidentitymapping from eks cluster: '' e), w1)
             | (Inr state, w1) \<Rightarrow>
                 (let w2 = snd (d_Set env KeyOIDCProviderURL
                                  (VString (Issuer (Oidc (Identity state)))) w1) in
                  case GetOIDCProviderARN state of
                    Inl e \<Rightarrow> (Inl e, w2)
                  | Inr arn \<Rightarrow>
                      (let w3 = snd (d_Set env KeyOIDCProviderARN (VString arn) w2);
                           w4 = snd (d_Set env KeySecurityGroupIDs
                                      (VStrings (GetSecurityGroupIDs state)) w3)
                       in (Inr (), w4)))))"

section \<open>The IAM identity mapping: \<open>runGetIAMIdentityMapping\<close> and \<open>readIAMIdentityMapping\<close>\<close>

text \<open>The two textual replacements of \<open>runGetIAMIdentityMapping\<close>, in their order.\<close>

definition normalizeIAMKeys :: "string \<Rightarrow> string" where
  "normalizeIAMKeys output =
     (let iamJson1 = Replace output ''rolearn'' ''iamarn'';
          iamJson2 = Replace iamJson1 ''userarn'' ''iamarn''
      in iamJson2)"

definition runGetIAMIdentityMapping :: "'s env \<Rightarrow> Cluster \<Rightarrow> world \<Rightarrow> (error + entry list) \<times> world" where
  "runGetIAMIdentityMapping env cluster w =
     (case newEksctlCommandFromResourceWithRegionAndProfile env (attrs w)
             [''get'', ''iamidentitymapping'', ''--cluster'', Cluster.Name cluster, ''-o'', ''json''] of
        Inl e \<Rightarrow> (Inl (wrap ''creating get imaidentitymapping command: '' e), w)
      | Inr cmd \<Rightarrow>
          (let w1 = emit (RunCommand cmd) w in
           case Run env cmd of
             Inl e \<Rightarrow> (Inl (wrap ''running get iamidentitymapping : '' e), w1)
           | Inr output \<Rightarrow>
               (case unmarshalIAM env (normalizeIAMKeys output) of
                  Inl e \<Rightarrow> (Inl (wrap ''parse iamidentitymapping : '' e), w1)
                | Inr iams \<Rightarrow> (Inr iams, w1))))"

text \<open>\<open>e["iamarn"].(string)\<close>: \<open>None\<close> where the type assertion panics.\<close>

definition iamarn :: "entry \<Rightarrow> string option" where
  "iamarn e = (case e ''iamarn'' of Some (VString s) \<Rightarrow> Some s | _ \<Rightarrow> None)"

definition keyOf :: "entry \<Rightarrow> string" where
  "keyOf e = (case iamarn e of Some s \<Rightarrow> s | None \<Rightarrow> [])"

text \<open>The comparison both calls of \<open>sort.Slice\<close> pass: bytewise \<open><\<close> on the keys.\<close>

definition lessIamarn :: "entry \<Rightarrow> entry \<Rightarrow> bool" where
  "lessIamarn a b = (keyOf a < keyOf b)"

text \<open>
  \<open>sort.Slice(xs, less)\<close> with that comparison. A slice of two or more entries has every
  entry compared at least once, so one entry without a string under \<open>iamarn\<close> panics;
  a shorter slice is never compared.
\<close>

definition sortByIamarn :: "'s env \<Rightarrow> entry list \<Rightarrow> error + entry list" where
  "sortByIamarn env xs =
     (if 2 \<le> length xs \<and> list_ex (\<lambda>e. iamarn e = None) xs
      then Inl (Panic ''interface conversion: interface {} is not string'')
      else Inr (sortSlice env lessIamarn xs))"

text \<open>The two sorts and the \<open>cmp.Diff\<close> of \<open>readIAMIdentityMapping\<close>.\<close>

definition sortAndDiff :: "'s env \<Rightarrow> entry list \<Rightarrow> entry list \<Rightarrow> error + string" where
  "sortAndDiff env iams current =
     (case sortByIamarn env current of
        Inl e \<Rightarrow> Inl e
      | Inr current' \<Rightarrow>
          (case sortByIamarn env iams of
             Inl e \<Rightarrow> Inl e
           | Inr iams' \<Rightarrow> Inr (cmpDiff env iams' current')))"

text \<open>The loop that collects the declared mappings: each element of the set must be a
  map.\<close>

fun asMaps :: "ival list \<Rightarrow> error + entry list" where
  "asMaps [] = Inr []"
| "asMaps (VMap m # vs) = (case asMaps vs of Inl e \<Rightarrow> Inl e | Inr ms \<Rightarrow> Inr (m # ms))"
| "asMaps (v # vs) = Inl (Panic ''interface conversion: interface {} is not map[string]interface {}'')"

definition declaredMappings :: "world \<Rightarrow> error + entry list" where
  "declaredMappings w =
     (case d_Get w KeyAWSAuthConfigMap of
        Some (VSet vs) \<Rightarrow> asMaps vs
      | _ \<Rightarrow> Inl (Panic ''interface conversion: interface {} is not *schema.Set''))"

definition readIAMIdentityMapping :: "'s env \<Rightarrow> Cluster \<Rightarrow> world \<Rightarrow> (error + unit) \<times> world" where
  "readIAMIdentityMapping env cluster w =
     (case IAMWithOIDCEnabled env cluster of
        Inl e \<Rightarrow> (Inl (wrap ''reading iam.withOIDC setting from cluster.yaml: '' e), w)
      | Inr iamWithOIDCEnabled \<Rightarrow>
          if \<not> iamWithOIDCEnabled then (Inr (), w)
          else
            (case runGetIAMIdentityMapping env cluster w of
               (Inl e, w1) \<Rightarrow>
                 (Inl (wrap ''can not get iamidentitymapping from eks cluster: '' e), w1)
             | (Inr iams, w1) \<Rightarrow>
                 (case declaredMappings w1 of
                    Inl e \<Rightarrow> (Inl e, w1)
                  | Inr current \<Rightarrow>
                      (case sortAndDiff env iams current of
                         Inl e \<Rightarrow> (Inl e, w1)
                       | Inr diff \<Rightarrow>
                           if diff \<noteq> []
                           then (Inr (), logPrintf (''aws-auth diff remote (-remote +current):''
                                   @ [CHR 0x0A] @ ''%s'') [LStr diff] w1)
                           else (Inr (), logPrintf ''have diff between remote source and param''
                                   [] w1)))))"

section \<open>\<open>readClusterInternal\<close> and \<open>readCluster\<close>\<close>

definition readClusterInternal :: "'s env \<Rightarrow> world \<Rightarrow> (error + Cluster) \<times> world" where
  "readClusterInternal env w =
     (case d_Get w KeyName of
        Some (VString clusterNamePrefix) \<Rightarrow>
          (let sess = AWSSessionFromResourceData env (attrs w);
               w1 = emit (GetTargetGroupARNs clusterNamePrefix) w in
           case getTargetGroupARNs env sess clusterNamePrefix of
             Inl e \<Rightarrow> (Inl (wrap ''reading cluster: '' e), w1)
           | Inr arns \<Rightarrow>
               (let v = VList (map VString arns);
                    (r, w2) = d_Set env KeyTargetGroupARNs v w1;
                    w3 = (case r of
                            Some err \<Rightarrow>
                              logPrintf ''setting resource data value for key %v: %w''
                                [LKey KeyTargetGroupARNs, LErr err] w2
                          | None \<Rightarrow> w2)
                in case ReadCluster env (attrs w3) of
                     Inl e \<Rightarrow> (Inl e, w3)
                   | Inr c \<Rightarrow> (Inr c, w3)))
      | _ \<Rightarrow> (Inl (Panic ''interface conversion: interface {} is not string''), w))"

text \<open>The kubeconfig path \<open>readCluster\<close> reads: empty when the attribute is nil, a panic
  when it is not a string.\<close>

definition kubeconfigPath :: "world \<Rightarrow> error + string" where
  "kubeconfigPath w =
     (case d_Get w KeyKubeconfigPath of
        None \<Rightarrow> Inr []
      | Some VNil \<Rightarrow> Inr []
      | Some (VString p) \<Rightarrow> Inr p
      | Some _ \<Rightarrow> Inl (Panic ''interface conversion: interface {} is not string''))"

definition writeMissingKubeconfig :: "'s env \<Rightarrow> Cluster \<Rightarrow> string \<Rightarrow> world \<Rightarrow> error option \<times> world" where
  "writeMissingKubeconfig env cluster path w =
     (if path \<noteq> [] \<and> osStat env path = StatNotExist then
        (let w1 = logPrintf
               ''running customdiff: no kubeconfig file found at kubeconfig_path=%s: recreating it''
               [LStr path] w;
             name = getClusterName env cluster (resourceId w1);
             (r, st) = doWriteKubeconfig env (attrs w1) name (Region cluster);
             w2 = emit (WriteKubeconfig name (Region cluster)) (w1\<lparr>attrs := st\<rparr>)
         in (r, w2))
      else (None, w))"

definition readCluster :: "'s env \<Rightarrow> world \<Rightarrow> (error + Cluster) \<times> world" where
  "readCluster env w =
     (case readClusterInternal env w of
        (Inl e, w1) \<Rightarrow> (Inl (wrap ''reading cluster: '' e), w1)
      | (Inr cluster, w1) \<Rightarrow>
          (case kubeconfigPath w1 of
             Inl e \<Rightarrow> (Inl e, w1)
           | Inr path \<Rightarrow>
               (case writeMissingKubeconfig env cluster path w1 of
                  (Some e, w2) \<Rightarrow> (Inl (wrap ''writing missing kubeconfig on plan: '' e), w2)
                | (None, w2) \<Rightarrow>
                    (case readIAMIdentityMapping env cluster w2 of
                       (Inl e, w3) \<Rightarrow>
                         (Inl (wrap ''reading aws-auth via eksctl get iamidentitymaping: '' e), w3)
                     | (Inr u, w3) \<Rightarrow> (Inr cluster, w3)))))"

section \<open>Reading the trace\<close>

text \<open>The writes to the store and the calls of the write-kubeconfig procedure, in the
  order they happened.\<close>

definition storeWrites :: "event list \<Rightarrow> (attr_key \<times> ival) list" where
  "storeWrites evs = concat (map (\<lambda>e. case e of SetAttr k v \<Rightarrow> [(k, v)] | _ \<Rightarrow> []) evs)"

definition kubeconfigWrites :: "event list \<Rightarrow> (string \<times> string) list" where
  "kubeconfigWrites evs =
     concat (map (\<lambda>e. case e of WriteKubeconfig name region \<Rightarrow> [(name, region)] | _ \<Rightarrow> []) evs)"

section \<open>The output text, cut at its string literals\<close>

text \<open>
  To state what the textual replacement does to the parsed entries, the output is read
  as JSON reads it: stretches outside string literals (brackets, colons, commas, white
  space, numbers) alternating with string literals, each literal an object key or a
  string value, written between double quotes. \<open>renderText\<close> gives the text back;
  \<open>renameKeys\<close> is the renaming the replacement is meant to do: the keys \<open>rolearn\<close>
  and \<open>userarn\<close> become \<open>iamarn\<close>, and nothing else changes.
\<close>

definition quoteChar :: char where
  "quoteChar = CHR 0x22"

datatype quoted = Key string | Str string

type_synonym jsonText = "(string \<times> quoted) list \<times> string"

fun body :: "quoted \<Rightarrow> string" where
  "body (Key k) = k"
| "body (Str s) = s"

definition renderText :: "jsonText \<Rightarrow> string" where
  "renderText t =
     concat (map (\<lambda>(plain, q). plain @ quoteChar # body q @ [quoteChar]) (fst t)) @ snd t"

fun renameQuoted :: "string \<Rightarrow> quoted \<Rightarrow> quoted" where
  "renameQuoted old (Key k) = Key (if k = old then ''iamarn'' else k)"
| "renameQuoted old (Str s) = Str s"

definition renameKeys :: "jsonText \<Rightarrow> jsonText" where
  "renameKeys t =
     (map (\<lambda>(plain, q). (plain, renameQuoted ''userarn'' (renameQuoted ''rolearn'' q))) (fst t),
      snd t)"

text \<open>The text holds \<open>rolearn\<close> or \<open>userarn\<close> somewhere; and the condition that the two
  words stand in a text only as whole keys.\<close>

definition mentions :: "string \<Rightarrow> bool" where
  "mentions s = (sublist ''rolearn'' s \<or> sublist ''userarn'' s)"

fun onlyAsKey :: "quoted \<Rightarrow> bool" where
  "onlyAsKey (Key k) = (k = ''rolearn'' \<or> k = ''userarn'' \<or> \<not> mentions k)"
| "onlyAsKey (Str s) = (\<not> mentions s)"

definition wordsOnlyAsKeys :: "jsonText \<Rightarrow> bool" where
  "wordsOnlyAsKeys t =
     (list_all (\<lambda>(plain, q). \<not> mentions plain \<and> onlyAsKey q) (fst t) \<and> \<not> mentions (snd t))"

section \<open>Conditions the statements use\<close>

text \<open>
  What \<open>sort.Slice\<close> promises for the comparison by \<open>iamarn\<close>: the result is a
  permutation of the input in which no entry is less than an earlier one. (The sort
  is not stable: the order of entries with equal keys is not promised.)
\<close>

definition sortsByIamarn :: "'s env \<Rightarrow> bool" where
  "sortsByIamarn env =
     (\<forall>xs. mset (sortSlice env lessIamarn xs) = mset xs
         \<and> sorted_wrt (\<lambda>a b. \<not> lessIamarn b a) (sortSlice env lessIamarn xs))"

text \<open>Entries of the list that share their \<open>iamarn\<close> are the same entry.\<close>

definition keysDistinguish :: "entry list \<Rightarrow> bool" where
  "keysDistinguish xs = (\<forall>a \<in> set xs. \<forall>b \<in> set xs. iamarn a = iamarn b \<longrightarrow> a = b)"

section \<open>Instances used to run the model\<close>

text \<open>
  On a short slice \<open>sort.Slice\<close> runs insertion sort: the element at position \<open>i\<close>
  is swapped to the left for as long as it is less than its left neighbour.
  \<open>insertBack\<close> takes the sorted prefix with its last element first.
\<close>

fun insertBack :: "('a \<Rightarrow> 'a \<Rightarrow> bool) \<Rightarrow> 'a \<Rightarrow> 'a list \<Rightarrow> 'a list" where
  "insertBack lt x [] = [x]"
| "insertBack lt x (y # ys) =
     (if lt x y then y # insertBack lt x ys else x # y # ys)"

definition insertionSort :: "('a \<Rightarrow> 'a \<Rightarrow> bool) \<Rightarrow> 'a list \<Rightarrow> 'a list" where
  "insertionSort lt xs = rev (foldl (\<lambda>acc x. insertBack lt x acc) [] xs)"

text \<open>The least a \<open>cmp.Diff\<close> reports: nothing for equal values, something otherwise.\<close>

definition equalOrNot :: "entry list \<Rightarrow> entry list \<Rightarrow> string" where
  "equalOrNot x y = (if x = y then [] else ''- remote + current'')"

text \<open>The cluster state of the spec's end-to-end scenario, and a malformed one.\<close>

definition redState :: ClusterState where
  "redState =
     \<lparr>ClusterState.Name = ''red'',
      Identity = \<lparr>Oidc = \<lparr>Issuer = ''https://oidc.eks.us-east-1.amazonaws.com/id/ABC123''\<rparr>\<rparr>,
      RoleArn = ''arn:aws:iam::1234:role/x'',
      ResourcesVpcConfig = \<lparr>ClusterSecurityGroupId = [], SecurityGroupIds = [''sg-1'']\<rparr>\<rparr>"

definition blueState :: ClusterState where
  "blueState = redState\<lparr>ClusterState.Name := ''blue'', RoleArn := ''arn:aws:iam::1234:role/y''\<rparr>"

definition malformedState :: ClusterState where
  "malformedState =
     \<lparr>ClusterState.Name = [], Identity = \<lparr>Oidc = \<lparr>Issuer = ''no slash here''\<rparr>\<rparr>, RoleArn = ''::'',
      ResourcesVpcConfig = \<lparr>ClusterSecurityGroupId = [], SecurityGroupIds = []\<rparr>\<rparr>"

definition redCluster :: Cluster where
  "redCluster = \<lparr>Cluster.Name = ''red'', Region = ''us-east-1'', Spec = ''withOIDC: true''\<rparr>"

text \<open>
  An environment in which every collaborator succeeds: the store accepts every write,
  the builder puts \<open>eksctl\<close> before the arguments, the runner prints an empty array,
  and IAM-with-OIDC is enabled exactly for the configuration \<open>withOIDC: true\<close>.
\<close>

definition exampleEnv :: "unit env" where
  "exampleEnv =
     \<lparr>AWSSessionFromResourceData = (\<lambda>st. ()),
      getTargetGroupARNs = (\<lambda>sess prefix. Inr [''arn:aws:elasticloadbalancing:tg/'' @ prefix]),
      ReadCluster = (\<lambda>st. Inr redCluster),
      getClusterName = (\<lambda>c ident. Cluster.Name c),
      doWriteKubeconfig = (\<lambda>st name region. (None, st)),
      IAMWithOIDCEnabled = (\<lambda>c. Inr (Spec c = ''withOIDC: true'')),
      newEksctlCommandFromResourceWithRegionAndProfile = (\<lambda>st args. Inr (''eksctl'' # args)),
      Run = (\<lambda>cmd. Inr ''[]''),
      unmarshalIAM = (\<lambda>text. Inr []),
      unmarshalStates = (\<lambda>text. Inr []),
      osStat = (\<lambda>path. if path = ''/home/me/kubeconfig'' then StatOk else StatNotExist),
      sortSlice = insertionSort,
      cmpDiff = equalOrNot,
      setError = (\<lambda>k v. None)\<rparr>"

definition emptyWorld :: world where
  "emptyWorld = \<lparr>attrs = Map.empty, resourceId = ''red'', events = []\<rparr>"

definition envWithStates :: "ClusterState option list \<Rightarrow> unit env" where
  "envWithStates states = exampleEnv\<lparr>unmarshalStates := (\<lambda>text. Inr states)\<rparr>"

definition envWithMappings :: "entry list \<Rightarrow> unit env" where
  "envWithMappings iams = exampleEnv\<lparr>unmarshalIAM := (\<lambda>text. Inr iams)\<rparr>"

definition adminRole :: entry where
  "adminRole = [''iamarn'' \<mapsto> VString ''arn:aws:iam::1234:role/admin'',
                ''username'' \<mapsto> VString ''admin'']"

definition devUser :: entry where
  "devUser = [''iamarn'' \<mapsto> VString ''arn:aws:iam::1234:user/dev'',
              ''username'' \<mapsto> VString ''dev'']"

definition adminRoleAgain :: entry where
  "adminRoleAgain = adminRole(''username'' \<mapsto> VString ''root'')"

definition worldWithMappings :: "ival list \<Rightarrow> world" where
  "worldWithMappings vs = emptyWorld\<lparr>attrs := [KeyAWSAuthConfigMap \<mapsto> VSet vs]\<rparr>"

definition worldWithPath :: "string \<Rightarrow> world" where
  "worldWithPath p =
     emptyWorld\<lparr>attrs := [KeyName \<mapsto> VString ''red'', KeyKubeconfigPath \<mapsto> VString p]\<rparr>"

text \<open>Two outputs of \<open>eksctl get iamidentitymapping\<close>: one role mapping, and one whose
  role is named \<open>userarn-sync\<close>.\<close>

definition roleMapping :: jsonText where
  "roleMapping =
     ([(''[{'', Key ''rolearn''), ('':'', Str ''arn:aws:iam::1234:role/admin''),
       ('','', Key ''username''), ('':'', Str ''admin'')], ''}]'')"

definition userarnSyncMapping :: jsonText where
  "userarnSyncMapping =
     ([(''[{'', Key ''rolearn''), ('':'', Str ''arn:aws:iam::1234:role/userarn-sync''),
       ('','', Key ''username''), ('':'', Str ''sync'')], ''}]'')"

section \<open>\<open>GetOIDCProviderARN\<close> never fails, and is right on well-formed input\<close>

declare Split.simps [simp del] Replace.simps [simp del]

lemma Split_not_Nil: "Split s sep \<noteq> []"
  by (subst Split.simps) (simp add: Let_def)

lemma index_zero: "xs \<noteq> [] \<Longrightarrow> index xs 0 = Inr (hd xs)"
  by (cases xs) (simp_all add: index_def)

lemma lastIndexFrom_range:
  "lastIndexFrom i s sub = - 1 \<or> (0 \<le> lastIndexFrom i s sub \<and> lastIndexFrom i s sub \<le> int i)"
  by (induction i) auto

lemma LastIndex_range:
  "LastIndex s sub = - 1 \<or>
   (0 \<le> LastIndex s sub \<and> LastIndex s sub + int (length sub) \<le> int (length s))"
  using lastIndexFrom_range [of "length s - length sub" s sub]
  by (auto simp: LastIndex_def)

lemma LastIndex_slash_slice: "\<exists>t. sliceFrom s (LastIndex s ''/'' + 1) = Inr t"
  using LastIndex_range [of s "''/''"]
  by (auto simp: sliceFrom_def)

lemma GetOIDCProviderARN_returns: "\<exists>arn. GetOIDCProviderARN s = Inr arn"
proof -
  obtain t where
    "sliceFrom (Issuer (Oidc (Identity s))) (LastIndex (Issuer (Oidc (Identity s))) ''/'' + 1) = Inr t"
    using LastIndex_slash_slice by blast
  then show ?thesis
    by (simp add: GetOIDCProviderARN_def index_zero Split_not_Nil)
qed

text \<open>
  C9. \<open>GetOIDCProviderARN\<close> is total and has no error path: for every cluster state,
  whatever its role ARN and issuer (also without the expected prefixes, separators or
  any slash), the index and slice expressions stay in range and a string is returned.
\<close>

theorem GetOIDCProviderARN_total: "\<exists>arn. GetOIDCProviderARN s = Inr arn"
  by (rule GetOIDCProviderARN_returns)

theorem GetOIDCProviderARN_total_witness: "\<exists>arn. GetOIDCProviderARN malformedState = Inr arn"
  by (rule GetOIDCProviderARN_total)

lemma indexFrom_char:
  "c \<notin> set a \<Longrightarrow> indexFrom i (a @ c # r) [c] = int (i + length a)"
  by (induction a arbitrary: i) auto

lemma Split_char:
  "c \<notin> set a \<Longrightarrow> Split (a @ c # r) [c] = a # Split r [c]"
  by (subst Split.simps) (simp add: Index_def indexFrom_char Let_def)

lemma Split_char_hd:
  "c \<notin> set a \<Longrightarrow> index (Split (a @ c # r) [c]) 0 = Inr a"
  by (simp add: Split_char index_def)

lemma lastIndexFrom_unfold:
  "lastIndexFrom i s sub =
     (if prefix sub (drop i s) then int i
      else (case i of 0 \<Rightarrow> - 1 | Suc j \<Rightarrow> lastIndexFrom j s sub))"
  by (cases i) auto

lemma lastIndexFrom_char:
  "c \<notin> set xs \<Longrightarrow> k \<le> length xs \<Longrightarrow>
   lastIndexFrom (length pre + k) (pre @ c # xs) [c] = int (length pre)"
proof (induction k)
  case 0
  then show ?case by (subst lastIndexFrom_unfold) simp
next
  case (Suc k)
  then have "drop k xs \<noteq> []" by simp
  then obtain y ys where d: "drop k xs = y # ys" by (cases "drop k xs") auto
  then have "y \<in> set xs" by (metis in_set_dropD list.set_intros(1))
  with Suc.prems have "y \<noteq> c" by auto
  with d Suc show ?case by simp
qed

lemma LastIndex_char:
  "c \<notin> set xs \<Longrightarrow> LastIndex (pre @ c # xs) [c] = int (length pre)"
  using lastIndexFrom_char [of c xs "length xs" pre]
  by (simp add: LastIndex_def)

lemma sliceFrom_after: "sliceFrom (pre @ c # xs) (int (length pre) + 1) = Inr xs"
proof -
  have "nat (int (length pre) + 1) = Suc (length pre)" by simp
  then show ?thesis by (simp add: sliceFrom_def)
qed

lemma GetOIDCProviderARN_pieces:
  assumes "CHR '':'' \<notin> set account" and "CHR ''.'' \<notin> set region" and "CHR ''/'' \<notin> set ident"
    and "RoleArn s = ''arn:aws:iam::'' @ account @ '':role/'' @ rest"
    and "Issuer (Oidc (Identity s)) = ''https://oidc.eks.'' @ region @ ''.amazonaws.com/id/'' @ ident"
  shows "GetOIDCProviderARN s =
    Inr (''arn:aws:iam::'' @ account @ '':oidc-provider/oidc.eks.'' @ region
           @ ''.amazonaws.com/id/'' @ ident)"
proof -
  have a: "index (Split (TrimPrefix (RoleArn s) ''arn:aws:iam::'') '':'') 0 = Inr account"
    using assms(1) Split_char_hd [of "CHR '':''" account "''role/'' @ rest"]
    by (simp add: assms(4) TrimPrefix_def HasPrefix_def)
  have r: "index (Split (TrimPrefix (Issuer (Oidc (Identity s))) ''https://oidc.eks.'') ''.'') 0
      = Inr region"
    using assms(2) Split_char_hd [of "CHR ''.''" region "''amazonaws.com/id/'' @ ident"]
    by (simp add: assms(5) TrimPrefix_def HasPrefix_def)
  define pre where "pre = ''https://oidc.eks.'' @ region @ ''.amazonaws.com/id''"
  have iss: "Issuer (Oidc (Identity s)) = pre @ CHR ''/'' # ident"
    by (simp add: assms(5) pre_def)
  have i: "sliceFrom (Issuer (Oidc (Identity s)))
      (LastIndex (Issuer (Oidc (Identity s))) ''/'' + 1) = Inr ident"
    unfolding iss using assms(3) by (simp add: LastIndex_char sliceFrom_after)
  show ?thesis
    by (simp add: GetOIDCProviderARN_def a r i)
qed

text \<open>
  C1. For a role ARN \<open>arn:aws:iam::ACCOUNT:role/...\<close> and an issuer
  \<open>https://oidc.eks.REGION.amazonaws.com/id/ID\<close>, \<open>GetOIDCProviderARN\<close> returns exactly
  \<open>arn:aws:iam::ACCOUNT:oidc-provider/oidc.eks.REGION.amazonaws.com/id/ID\<close>. The three
  placeholders are the pieces the separators of the two forms delimit: \<open>ACCOUNT\<close> holds
  no colon, \<open>REGION\<close> no dot and \<open>ID\<close> no slash (what follows \<open>role/\<close> is free).
\<close>

theorem GetOIDCProviderARN_wellformed:
  assumes "CHR '':'' \<notin> set account" and "CHR ''.'' \<notin> set region" and "CHR ''/'' \<notin> set ident"
    and "RoleArn s = ''arn:aws:iam::'' @ account @ '':role/'' @ rest"
    and "Issuer (Oidc (Identity s)) = ''https://oidc.eks.'' @ region @ ''.amazonaws.com/id/'' @ ident"
  shows "GetOIDCProviderARN s =
    Inr (''arn:aws:iam::'' @ account @ '':oidc-provider/oidc.eks.'' @ region
           @ ''.amazonaws.com/id/'' @ ident)"
  using assms by (rule GetOIDCProviderARN_pieces)

theorem GetOIDCProviderARN_wellformed_witness:
  "GetOIDCProviderARN redState =
     Inr ''arn:aws:iam::1234:oidc-provider/oidc.eks.us-east-1.amazonaws.com/id/ABC123''"
  using GetOIDCProviderARN_wellformed [of "''1234''" "''us-east-1''" "''ABC123''" redState "''x''"]
  by (simp add: redState_def)

lemma redState_arn:
  "GetOIDCProviderARN redState =
     Inr ''arn:aws:iam::1234:oidc-provider/oidc.eks.us-east-1.amazonaws.com/id/ABC123''"
  using GetOIDCProviderARN_pieces [of "''1234''" "''us-east-1''" "''ABC123''" redState "''x''"]
  by (simp add: redState_def)

section \<open>\<open>runGetCluster\<close> selects the entry with the target name\<close>

lemma findState_find:
  "findState (map Some states) name = Inr (List.find (\<lambda>s. ClusterState.Name s = name) states)"
  by (induction states) auto

lemma runGetCluster_parsed:
  assumes "newEksctlCommandFromResourceWithRegionAndProfile env (attrs w)
             [''get'', ''cluster'', ''--name'', Cluster.Name cluster, ''-o'', ''json''] = Inr cmd"
    and "Run env cmd = Inr out"
    and "unmarshalStates env out = Inr (map Some states)"
  shows "fst (runGetCluster env cluster w) =
    (case List.find (\<lambda>s. ClusterState.Name s = Cluster.Name cluster) states of
       None \<Rightarrow> Inl (Error (''no cluster found: '' @ Cluster.Name cluster))
     | Some s \<Rightarrow> Inr s)"
  using assms
  by (simp add: runGetCluster_def Let_def findState_find split: option.splits)

text \<open>
  C2. Once the command is built, has run, and its output has parsed into an array of
  cluster states: if some entry bears the target name, \<open>runGetCluster\<close> returns an
  entry of the array that bears it; if none does, it returns the error
  \<open>no cluster found: <name>\<close>.
\<close>

theorem runGetCluster_selects:
  assumes "newEksctlCommandFromResourceWithRegionAndProfile env (attrs w)
             [''get'', ''cluster'', ''--name'', Cluster.Name cluster, ''-o'', ''json''] = Inr cmd"
    and "Run env cmd = Inr out"
    and "unmarshalStates env out = Inr (map Some states)"
  shows "((\<exists>s \<in> set states. ClusterState.Name s = Cluster.Name cluster) \<longrightarrow>
            (\<exists>s \<in> set states. ClusterState.Name s = Cluster.Name cluster
               \<and> fst (runGetCluster env cluster w) = Inr s))
       \<and> ((\<forall>s \<in> set states. ClusterState.Name s \<noteq> Cluster.Name cluster) \<longrightarrow>
            fst (runGetCluster env cluster w)
              = Inl (Error (''no cluster found: '' @ Cluster.Name cluster)))"
proof (intro conjI impI)
  assume "\<exists>s \<in> set states. ClusterState.Name s = Cluster.Name cluster"
  then obtain s where f: "List.find (\<lambda>s. ClusterState.Name s = Cluster.Name cluster) states = Some s"
    by (cases "List.find (\<lambda>s. ClusterState.Name s = Cluster.Name cluster) states")
       (auto simp: find_None_iff)
  then have "s \<in> set states" and "ClusterState.Name s = Cluster.Name cluster"
    by (auto simp: find_Some_iff)
  moreover have "fst (runGetCluster env cluster w) = Inr s"
    using runGetCluster_parsed [OF assms] f by simp
  ultimately show "\<exists>s \<in> set states. ClusterState.Name s = Cluster.Name cluster
      \<and> fst (runGetCluster env cluster w) = Inr s"
    by blast
next
  assume "\<forall>s \<in> set states. ClusterState.Name s \<noteq> Cluster.Name cluster"
  then have "List.find (\<lambda>s. ClusterState.Name s = Cluster.Name cluster) states = None"
    by (simp add: find_None_iff)
  then show "fst (runGetCluster env cluster w)
      = Inl (Error (''no cluster found: '' @ Cluster.Name cluster))"
    using runGetCluster_parsed [OF assms] by simp
qed

theorem runGetCluster_selects_witness:
  "fst (runGetCluster (envWithStates [Some blueState, Some redState]) redCluster emptyWorld)
     = Inr redState
   \<and> fst (runGetCluster (envWithStates [Some blueState, Some redState])
            (redCluster\<lparr>Cluster.Name := ''green''\<rparr>) emptyWorld)
     = Inl (Error ''no cluster found: green'')"
  using runGetCluster_selects [of "envWithStates [Some blueState, Some redState]" emptyWorld
      redCluster "[''eksctl'', ''get'', ''cluster'', ''--name'', ''red'', ''-o'', ''json'']"
      "''[]''" "[blueState, redState]"]
    runGetCluster_selects [of "envWithStates [Some blueState, Some redState]" emptyWorld
      "redCluster\<lparr>Cluster.Name := ''green''\<rparr>"
      "[''eksctl'', ''get'', ''cluster'', ''--name'', ''green'', ''-o'', ''json'']"
      "''[]''" "[blueState, redState]"]
  by (simp add: envWithStates_def exampleEnv_def redCluster_def blueState_def redState_def)

text \<open>
  C10. When two or more entries of the parsed array bear the target name,
  \<open>runGetCluster\<close> returns the first of them in array order: the entry at an index
  before which no entry bears the name.
\<close>

theorem runGetCluster_first_match:
  assumes "newEksctlCommandFromResourceWithRegionAndProfile env (attrs w)
             [''get'', ''cluster'', ''--name'', Cluster.Name cluster, ''-o'', ''json''] = Inr cmd"
    and "Run env cmd = Inr out"
    and "unmarshalStates env out = Inr (map Some states)"
    and "2 \<le> length (filter (\<lambda>s. ClusterState.Name s = Cluster.Name cluster) states)"
  shows "\<exists>i < length states.
           fst (runGetCluster env cluster w) = Inr (states ! i)
         \<and> ClusterState.Name (states ! i) = Cluster.Name cluster
         \<and> (\<forall>j < i. ClusterState.Name (states ! j) \<noteq> Cluster.Name cluster)"
proof -
  from assms(4) have "filter (\<lambda>s. ClusterState.Name s = Cluster.Name cluster) states \<noteq> []"
    by auto
  then have "\<exists>s \<in> set states. ClusterState.Name s = Cluster.Name cluster"
    by (auto simp: filter_empty_conv)
  then obtain s where f: "List.find (\<lambda>s. ClusterState.Name s = Cluster.Name cluster) states = Some s"
    by (cases "List.find (\<lambda>s. ClusterState.Name s = Cluster.Name cluster) states")
       (auto simp: find_None_iff)
  then obtain i where "i < length states" "ClusterState.Name (states ! i) = Cluster.Name cluster"
      "s = states ! i" "\<forall>j < i. ClusterState.Name (states ! j) \<noteq> Cluster.Name cluster"
    by (auto simp: find_Some_iff)
  moreover have "fst (runGetCluster env cluster w) = Inr s"
    using runGetCluster_parsed [OF assms(1-3)] f by simp
  ultimately show ?thesis by blast
qed

theorem runGetCluster_first_match_witness:
  "fst (runGetCluster
          (envWithStates [Some blueState, Some redState, Some (redState\<lparr>RoleArn := ''other''\<rparr>)])
          redCluster emptyWorld)
     = Inr redState"
proof -
  let ?sts = "[blueState, redState, redState\<lparr>RoleArn := ''other''\<rparr>]"
  have "\<exists>i < length ?sts.
           fst (runGetCluster (envWithStates (map Some ?sts)) redCluster emptyWorld) = Inr (?sts ! i)
         \<and> ClusterState.Name (?sts ! i) = Cluster.Name redCluster
         \<and> (\<forall>j < i. ClusterState.Name (?sts ! j) \<noteq> Cluster.Name redCluster)"
    by (rule runGetCluster_first_match [of _ _ _ "[''eksctl'', ''get'', ''cluster'', ''--name'', ''red'', ''-o'', ''json'']" "''[]''"])
       (simp_all add: envWithStates_def exampleEnv_def redCluster_def blueState_def redState_def)
  then obtain i where l: "i < length ?sts"
    and r: "fst (runGetCluster (envWithStates (map Some ?sts)) redCluster emptyWorld) = Inr (?sts ! i)"
    and n: "ClusterState.Name (?sts ! i) = Cluster.Name redCluster"
    and f: "\<forall>j < i. ClusterState.Name (?sts ! j) \<noteq> Cluster.Name redCluster"
    by blast
  from l have i: "i < 3" by simp
  from i consider "i = 0" | "i = 1" | "i = 2" by linarith
  then have "i = 1"
  proof cases
    case 1
    with n show ?thesis by (simp add: blueState_def redState_def redCluster_def)
  next
    case 2
    then show ?thesis .
  next
    case 3
    with f have "(1::nat) < 2 \<longrightarrow> ClusterState.Name (?sts ! 1) \<noteq> Cluster.Name redCluster"
      by blast
    then show ?thesis by (simp add: redState_def redCluster_def)
  qed
  with r show ?thesis by simp
qed

section \<open>IAM-with-OIDC disabled\<close>

text \<open>
  C6. When the IAM-with-OIDC setting parses as disabled, \<open>readIAMIdentityMapping\<close> and
  \<open>loadOIDCProviderURLAndARN\<close> both return nil and leave the world as it was: no
  command is built or run, nothing is logged, no attribute is written.
\<close>

theorem oidc_disabled_returns_at_once:
  assumes "IAMWithOIDCEnabled env cluster = Inr False"
  shows "readIAMIdentityMapping env cluster w = (Inr (), w)
       \<and> loadOIDCProviderURLAndARN env cluster w = (Inr (), w)"
  using assms by (simp add: readIAMIdentityMapping_def loadOIDCProviderURLAndARN_def)

theorem oidc_disabled_returns_at_once_witness:
  "readIAMIdentityMapping exampleEnv (redCluster\<lparr>Spec := ''withOIDC: false''\<rparr>) emptyWorld
     = (Inr (), emptyWorld)
   \<and> loadOIDCProviderURLAndARN exampleEnv (redCluster\<lparr>Spec := ''withOIDC: false''\<rparr>) emptyWorld
     = (Inr (), emptyWorld)"
  using oidc_disabled_returns_at_once [of exampleEnv "redCluster\<lparr>Spec := ''withOIDC: false''\<rparr>" emptyWorld]
  by (simp add: exampleEnv_def redCluster_def)

section \<open>\<open>loadOIDCProviderURLAndARN\<close> writes three attributes\<close>

lemma runGetCluster_attrs: "attrs (snd (runGetCluster env cluster w)) = attrs w"
  by (simp add: runGetCluster_def Let_def emit_def logPrintf_def
      split: sum.splits option.splits)

lemma runGetCluster_storeWrites:
  "storeWrites (events (snd (runGetCluster env cluster w))) = storeWrites (events w)"
  by (simp add: runGetCluster_def Let_def emit_def logPrintf_def storeWrites_def
      split: sum.splits option.splits)

lemma d_Set_events: "events (snd (d_Set env k v w)) = events w @ [SetAttr k v]"
  by (simp add: d_Set_def emit_def split: option.splits)

lemma d_Set_attrs:
  "attrs (snd (d_Set env k v w)) =
     (if setError env k v = None then (attrs w)(k \<mapsto> v) else attrs w)"
  by (simp add: d_Set_def emit_def split: option.splits)

text \<open>
  C8. With IAM-with-OIDC enabled and a cluster state found by \<open>runGetCluster\<close>,
  \<open>loadOIDCProviderURLAndARN\<close> succeeds and writes exactly three attributes, in this
  order: the OIDC provider URL (the issuer), the derived OIDC provider ARN, and the list
  of security group ids. Every other attribute of the store keeps its value, and each
  of the three holds the written value wherever the store accepted the write.
\<close>

theorem loadOIDC_writes_three:
  assumes "IAMWithOIDCEnabled env cluster = Inr True"
    and "runGetCluster env cluster w = (Inr state, w1)"
  shows "\<exists>arn w'. GetOIDCProviderARN state = Inr arn
      \<and> loadOIDCProviderURLAndARN env cluster w = (Inr (), w')
      \<and> storeWrites (events w') = storeWrites (events w) @
           [(KeyOIDCProviderURL, VString (Issuer (Oidc (Identity state)))),
            (KeyOIDCProviderARN, VString arn),
            (KeySecurityGroupIDs, VStrings (GetSecurityGroupIDs state))]
      \<and> (\<forall>k. k \<noteq> KeyOIDCProviderURL \<and> k \<noteq> KeyOIDCProviderARN \<and> k \<noteq> KeySecurityGroupIDs
             \<longrightarrow> attrs w' k = attrs w k)
      \<and> (setError env KeyOIDCProviderURL (VString (Issuer (Oidc (Identity state)))) = None
             \<longrightarrow> attrs w' KeyOIDCProviderURL = Some (VString (Issuer (Oidc (Identity state)))))
      \<and> (setError env KeyOIDCProviderARN (VString arn) = None
             \<longrightarrow> attrs w' KeyOIDCProviderARN = Some (VString arn))
      \<and> (setError env KeySecurityGroupIDs (VStrings (GetSecurityGroupIDs state)) = None
             \<longrightarrow> attrs w' KeySecurityGroupIDs = Some (VStrings (GetSecurityGroupIDs state)))"
proof -
  obtain arn where arn: "GetOIDCProviderARN state = Inr arn"
    using GetOIDCProviderARN_returns by blast
  from assms(2) have a1: "attrs w1 = attrs w" and e1: "storeWrites (events w1) = storeWrites (events w)"
    using runGetCluster_attrs [of env cluster w] runGetCluster_storeWrites [of env cluster w]
    by simp_all
  define w2 where "w2 = snd (d_Set env KeyOIDCProviderURL (VString (Issuer (Oidc (Identity state)))) w1)"
  define w3 where "w3 = snd (d_Set env KeyOIDCProviderARN (VString arn) w2)"
  define w4 where "w4 = snd (d_Set env KeySecurityGroupIDs (VStrings (GetSecurityGroupIDs state)) w3)"
  have r: "loadOIDCProviderURLAndARN env cluster w = (Inr (), w4)"
    using assms arn by (simp add: loadOIDCProviderURLAndARN_def Let_def w2_def w3_def w4_def)
  have ev: "events w4 = events w1 @
           [SetAttr KeyOIDCProviderURL (VString (Issuer (Oidc (Identity state)))),
            SetAttr KeyOIDCProviderARN (VString arn),
            SetAttr KeySecurityGroupIDs (VStrings (GetSecurityGroupIDs state))]"
    by (simp add: w4_def w3_def w2_def d_Set_events)
  have sw: "storeWrites (events w4) = storeWrites (events w) @
           [(KeyOIDCProviderURL, VString (Issuer (Oidc (Identity state)))),
            (KeyOIDCProviderARN, VString arn),
            (KeySecurityGroupIDs, VStrings (GetSecurityGroupIDs state))]"
    unfolding ev using e1 by (simp add: storeWrites_def)
  have fr: "\<forall>k. k \<noteq> KeyOIDCProviderURL \<and> k \<noteq> KeyOIDCProviderARN \<and> k \<noteq> KeySecurityGroupIDs
             \<longrightarrow> attrs w4 k = attrs w k"
    by (simp add: w4_def w3_def w2_def d_Set_attrs a1)
  have v: "(setError env KeyOIDCProviderURL (VString (Issuer (Oidc (Identity state)))) = None
             \<longrightarrow> attrs w4 KeyOIDCProviderURL = Some (VString (Issuer (Oidc (Identity state)))))
      \<and> (setError env KeyOIDCProviderARN (VString arn) = None
             \<longrightarrow> attrs w4 KeyOIDCProviderARN = Some (VString arn))
      \<and> (setError env KeySecurityGroupIDs (VStrings (GetSecurityGroupIDs state)) = None
             \<longrightarrow> attrs w4 KeySecurityGroupIDs = Some (VStrings (GetSecurityGroupIDs state)))"
    by (simp add: w4_def w3_def w2_def d_Set_attrs)
  from arn r sw fr v show ?thesis
    by (intro exI [of _ arn] exI [of _ w4] conjI) simp_all
qed

theorem loadOIDC_writes_three_witness:
  "storeWrites (events (snd (loadOIDCProviderURLAndARN (envWithStates [Some redState]) redCluster emptyWorld)))
     = [(KeyOIDCProviderURL, VString ''https://oidc.eks.us-east-1.amazonaws.com/id/ABC123''),
        (KeyOIDCProviderARN,
           VString ''arn:aws:iam::1234:oidc-provider/oidc.eks.us-east-1.amazonaws.com/id/ABC123''),
        (KeySecurityGroupIDs, VStrings [''sg-1''])]"
proof -
  have en: "IAMWithOIDCEnabled (envWithStates [Some redState]) redCluster = Inr True"
    by (simp add: envWithStates_def exampleEnv_def redCluster_def)
  have run: "runGetCluster (envWithStates [Some redState]) redCluster emptyWorld
      = (Inr redState, snd (runGetCluster (envWithStates [Some redState]) redCluster emptyWorld))"
    by (simp add: runGetCluster_def envWithStates_def exampleEnv_def redCluster_def Let_def
        redState_def)
  from loadOIDC_writes_three [OF en run]
  obtain arn w' where "GetOIDCProviderARN redState = Inr arn"
    and "loadOIDCProviderURLAndARN (envWithStates [Some redState]) redCluster emptyWorld = (Inr (), w')"
    and "storeWrites (events w') = storeWrites (events emptyWorld) @
           [(KeyOIDCProviderURL, VString (Issuer (Oidc (Identity redState)))),
            (KeyOIDCProviderARN, VString arn),
            (KeySecurityGroupIDs, VStrings (GetSecurityGroupIDs redState))]"
    by blast
  with redState_arn show ?thesis
    by (simp add: emptyWorld_def storeWrites_def redState_def GetSecurityGroupIDs_def)
qed

section \<open>A mismatch of the IAM identity mappings is logged, never returned\<close>

lemma runGetIAMIdentityMapping_attrs:
  "attrs (snd (runGetIAMIdentityMapping env cluster w)) = attrs w"
  by (simp add: runGetIAMIdentityMapping_def Let_def emit_def split: sum.splits)

lemma runGetIAMIdentityMapping_storeWrites:
  "storeWrites (events (snd (runGetIAMIdentityMapping env cluster w))) = storeWrites (events w)"
  by (simp add: runGetIAMIdentityMapping_def Let_def emit_def storeWrites_def split: sum.splits)

lemma runGetIAMIdentityMapping_kubeconfigWrites:
  "kubeconfigWrites (events (snd (runGetIAMIdentityMapping env cluster w))) = kubeconfigWrites (events w)"
  by (simp add: runGetIAMIdentityMapping_def Let_def emit_def kubeconfigWrites_def split: sum.splits)

lemma sortByIamarn_ok:
  "list_all (\<lambda>e. iamarn e \<noteq> None) xs \<Longrightarrow> sortByIamarn env xs = Inr (sortSlice env lessIamarn xs)"
  by (auto simp: sortByIamarn_def list_all_iff list_ex_iff)

lemma sortAndDiff_ok:
  "list_all (\<lambda>e. iamarn e \<noteq> None) iams \<Longrightarrow> list_all (\<lambda>e. iamarn e \<noteq> None) current \<Longrightarrow>
   sortAndDiff env iams current
     = Inr (cmpDiff env (sortSlice env lessIamarn iams) (sortSlice env lessIamarn current))"
  by (simp add: sortAndDiff_def sortByIamarn_ok)

text \<open>
  C7. With IAM-with-OIDC enabled, once the remote mappings are fetched, the declared
  ones are read and the diff of the two sorted lists is computed (the comparison by
  \<open>iamarn\<close> is defined on mapping entries, which carry a string there),
  \<open>readIAMIdentityMapping\<close> returns nil whether the diff is empty or not: all it adds
  to the trace after the fetch is one log line, the store is unchanged and no attribute
  is written.
\<close>

theorem mismatch_is_not_an_error:
  assumes "IAMWithOIDCEnabled env cluster = Inr True"
    and "runGetIAMIdentityMapping env cluster w = (Inr iams, w1)"
    and "declaredMappings w1 = Inr current"
    and "sortAndDiff env iams current = Inr diff"
  shows "fst (readIAMIdentityMapping env cluster w) = Inr ()
       \<and> attrs (snd (readIAMIdentityMapping env cluster w)) = attrs w
       \<and> storeWrites (events (snd (readIAMIdentityMapping env cluster w))) = storeWrites (events w)
       \<and> events (snd (readIAMIdentityMapping env cluster w)) = events w1 @
            [if diff \<noteq> []
             then LogPrintf (''aws-auth diff remote (-remote +current):'' @ [CHR 0x0A] @ ''%s'')
                    [LStr diff]
             else LogPrintf ''have diff between remote source and param'' []]"
proof -
  from assms(2) have a: "attrs w1 = attrs w" and s: "storeWrites (events w1) = storeWrites (events w)"
    using runGetIAMIdentityMapping_attrs [of env cluster w]
      runGetIAMIdentityMapping_storeWrites [of env cluster w] by simp_all
  show ?thesis
    using assms a s
    by (simp add: readIAMIdentityMapping_def logPrintf_def storeWrites_def)
qed

theorem mismatch_is_not_an_error_witness:
  "fst (readIAMIdentityMapping (envWithMappings [devUser, adminRole]) redCluster
          (worldWithMappings [VMap adminRole])) = Inr ()
   \<and> fst (readIAMIdentityMapping (envWithMappings [adminRole]) redCluster
          (worldWithMappings [VMap adminRole])) = Inr ()"
proof -
  let ?w = "worldWithMappings [VMap adminRole]"
  have k: "list_all (\<lambda>e. iamarn e \<noteq> None) [devUser, adminRole]"
      "list_all (\<lambda>e. iamarn e \<noteq> None) [adminRole]"
    by (simp_all add: iamarn_def adminRole_def devUser_def)
  have 1: "fst (readIAMIdentityMapping (envWithMappings [devUser, adminRole]) redCluster ?w) = Inr ()"
    using mismatch_is_not_an_error [of "envWithMappings [devUser, adminRole]" redCluster ?w
        "[devUser, adminRole]"
        "snd (runGetIAMIdentityMapping (envWithMappings [devUser, adminRole]) redCluster ?w)"
        "[adminRole]", OF _ _ _ sortAndDiff_ok [OF k]]
    by (simp add: envWithMappings_def exampleEnv_def redCluster_def runGetIAMIdentityMapping_def
        Let_def declaredMappings_def d_Get_def worldWithMappings_def emit_def)
  have 2: "fst (readIAMIdentityMapping (envWithMappings [adminRole]) redCluster ?w) = Inr ()"
    using mismatch_is_not_an_error [of "envWithMappings [adminRole]" redCluster ?w
        "[adminRole]"
        "snd (runGetIAMIdentityMapping (envWithMappings [adminRole]) redCluster ?w)"
        "[adminRole]", OF _ _ _ sortAndDiff_ok [OF k(2) k(2)]]
    by (simp add: envWithMappings_def exampleEnv_def redCluster_def runGetIAMIdentityMapping_def
        Let_def declaredMappings_def d_Get_def worldWithMappings_def emit_def)
  from 1 2 show ?thesis by simp
qed

section \<open>\<open>readCluster\<close> rewrites a missing kubeconfig once\<close>

lemma kubeconfigWrites_append:
  "kubeconfigWrites (xs @ ys) = kubeconfigWrites xs @ kubeconfigWrites ys"
  by (simp add: kubeconfigWrites_def)

lemma readClusterInternal_frame:
  "kubeconfigWrites (events (snd (readClusterInternal env w))) = kubeconfigWrites (events w)
   \<and> attrs (snd (readClusterInternal env w)) KeyKubeconfigPath = attrs w KeyKubeconfigPath
   \<and> resourceId (snd (readClusterInternal env w)) = resourceId w"
  by (simp add: readClusterInternal_def Let_def d_Get_def d_Set_def emit_def logPrintf_def
      kubeconfigWrites_def split: option.splits ival.splits sum.splits prod.splits)

lemma readIAMIdentityMapping_kubeconfigWrites:
  "kubeconfigWrites (events (snd (readIAMIdentityMapping env cluster w))) = kubeconfigWrites (events w)"
proof -
  have "kubeconfigWrites (events (snd (runGetIAMIdentityMapping env cluster w))) = kubeconfigWrites (events w)"
    by (rule runGetIAMIdentityMapping_kubeconfigWrites)
  then show ?thesis
    by (auto simp: readIAMIdentityMapping_def logPrintf_def kubeconfigWrites_append
        kubeconfigWrites_def split: sum.splits prod.splits)
qed

lemma writeMissingKubeconfig_writes:
  "kubeconfigWrites (events (snd (writeMissingKubeconfig env cluster path w))) =
     kubeconfigWrites (events w) @
       (if path \<noteq> [] \<and> osStat env path = StatNotExist
        then [(getClusterName env cluster (resourceId w), Region cluster)] else [])"
  by (simp add: writeMissingKubeconfig_def Let_def logPrintf_def emit_def kubeconfigWrites_def
      split: prod.splits)

text \<open>
  C3. In \<open>readCluster\<close>, for a resolved cluster (\<open>readClusterInternal\<close> succeeded) and
  the kubeconfig path the store holds: if the path is not empty and no file exists
  there, the write-kubeconfig procedure is called exactly once, with the cluster's
  resolved name and its region, before \<open>readCluster\<close> returns; if the path is empty or
  a file exists there, the procedure is not called.
\<close>

theorem readCluster_kubeconfig:
  assumes "readClusterInternal env w = (Inr cluster, w1)"
    and "kubeconfigPath w = Inr path"
  shows "kubeconfigWrites (events (snd (readCluster env w))) =
     kubeconfigWrites (events w) @
       (if path \<noteq> [] \<and> osStat env path = StatNotExist
        then [(getClusterName env cluster (resourceId w), Region cluster)] else [])"
proof -
  from assms(1) readClusterInternal_frame [of env w]
  have k: "kubeconfigWrites (events w1) = kubeconfigWrites (events w)"
    and a: "attrs w1 KeyKubeconfigPath = attrs w KeyKubeconfigPath"
    and i: "resourceId w1 = resourceId w" by simp_all
  from a assms(2) have p: "kubeconfigPath w1 = Inr path"
    by (simp add: kubeconfigPath_def d_Get_def)
  obtain r w2 where wm: "writeMissingKubeconfig env cluster path w1 = (r, w2)"
    by (cases "writeMissingKubeconfig env cluster path w1")
  with writeMissingKubeconfig_writes [of env cluster path w1] k i
  have w2: "kubeconfigWrites (events w2) = kubeconfigWrites (events w) @
       (if path \<noteq> [] \<and> osStat env path = StatNotExist
        then [(getClusterName env cluster (resourceId w), Region cluster)] else [])"
    by simp
  show ?thesis
  proof (cases r)
    case None
    obtain r3 w3 where ri: "readIAMIdentityMapping env cluster w2 = (r3, w3)"
      by (cases "readIAMIdentityMapping env cluster w2")
    with readIAMIdentityMapping_kubeconfigWrites [of env cluster w2] w2
    have w3: "kubeconfigWrites (events w3) = kubeconfigWrites (events w) @
       (if path \<noteq> [] \<and> osStat env path = StatNotExist
        then [(getClusterName env cluster (resourceId w), Region cluster)] else [])"
      by simp
    have "snd (readCluster env w) = w3"
      using assms(1) p wm None ri by (cases r3) (simp_all add: readCluster_def)
    with w3 show ?thesis by simp
  next
    case (Some e)
    with assms(1) p wm w2 show ?thesis
      by (simp add: readCluster_def)
  qed
qed

lemma readClusterInternal_example:
  "readClusterInternal exampleEnv (worldWithPath p)
     = (Inr redCluster, snd (readClusterInternal exampleEnv (worldWithPath p)))"
  by (simp add: readClusterInternal_def exampleEnv_def worldWithPath_def emptyWorld_def
      d_Get_def d_Set_def emit_def Let_def)

theorem readCluster_kubeconfig_witness:
  "kubeconfigWrites (events (snd (readCluster exampleEnv (worldWithPath ''/tmp/missing''))))
     = [(''red'', ''us-east-1'')]
   \<and> kubeconfigWrites (events (snd (readCluster exampleEnv (worldWithPath ''/home/me/kubeconfig''))))
     = []
   \<and> kubeconfigWrites (events (snd (readCluster exampleEnv (worldWithPath ''''))))
     = []"
  using readCluster_kubeconfig [OF readClusterInternal_example, of "''/tmp/missing''" "''/tmp/missing''"]
    readCluster_kubeconfig [OF readClusterInternal_example, of "''/home/me/kubeconfig''" "''/home/me/kubeconfig''"]
    readCluster_kubeconfig [OF readClusterInternal_example, of "''''" "''''"]
  by (simp add: kubeconfigPath_def d_Get_def worldWithPath_def emptyWorld_def exampleEnv_def
      redCluster_def kubeconfigWrites_def)

section \<open>Is the comparison of the mappings independent of their order?\<close>

lemma sorted_by_key_unique:
  fixes f :: "'a \<Rightarrow> string"
  assumes "mset xs = mset ys" and "sorted (map f xs)" and "sorted (map f ys)"
    and "inj_on f (set xs)"
  shows "xs = ys"
  using assms
proof (induction xs arbitrary: ys)
  case Nil
  then show ?case by simp
next
  case (Cons x xs)
  from Cons.prems(1) have "ys \<noteq> []" by auto
  then obtain y ys' where ys: "ys = y # ys'" by (cases ys) auto
  from Cons.prems(1) have s: "set (x # xs) = set ys" by (rule mset_eq_setD)
  have "y \<in> set (x # xs)" using s ys by simp
  then have 1: "f x \<le> f y" using Cons.prems(2) by auto
  have "x \<in> set ys" using s by auto
  then have 2: "f y \<le> f x" using Cons.prems(3) ys by auto
  from 1 2 have "f x = f y" by simp
  with Cons.prems(4) \<open>y \<in> set (x # xs)\<close> have xy: "x = y" by (auto dest: inj_onD)
  with Cons.prems(1) ys have "mset xs = mset ys'" by simp
  moreover from Cons.prems(2) have "sorted (map f xs)" by simp
  moreover from Cons.prems(3) ys have "sorted (map f ys')" by simp
  moreover from Cons.prems(4) have "inj_on f (set xs)" by (simp add: inj_on_def)
  ultimately have "xs = ys'" by (rule Cons.IH)
  with xy ys show ?case by simp
qed

lemma sorted_wrt_lessIamarn:
  "sorted_wrt (\<lambda>a b. \<not> lessIamarn b a) xs = sorted (map keyOf xs)"
  by (simp add: lessIamarn_def sorted_map not_less)

lemma keyOf_inj:
  assumes "list_all (\<lambda>e. iamarn e \<noteq> None) xs" and "keysDistinguish xs"
  shows "inj_on keyOf (set xs)"
proof (rule inj_onI)
  fix a b assume a: "a \<in> set xs" and b: "b \<in> set xs" and k: "keyOf a = keyOf b"
  from assms(1) a b have "iamarn a \<noteq> None" "iamarn b \<noteq> None"
    by (simp_all add: list_all_iff)
  then obtain s t where "iamarn a = Some s" "iamarn b = Some t"
    by blast
  with k have "iamarn a = iamarn b" by (simp add: keyOf_def)
  with assms(2) a b show "a = b" by (auto simp: keysDistinguish_def)
qed

lemma sortSlice_perm:
  assumes "sortsByIamarn env" and "list_all (\<lambda>e. iamarn e \<noteq> None) xs" and "keysDistinguish xs"
    and "mset xs' = mset xs"
  shows "sortSlice env lessIamarn xs' = sortSlice env lessIamarn xs"
proof -
  let ?a = "sortSlice env lessIamarn xs'" and ?b = "sortSlice env lessIamarn xs"
  from assms(1) have ma: "mset ?a = mset xs'" by (simp add: sortsByIamarn_def)
  from assms(1) have mb: "mset ?b = mset xs" by (simp add: sortsByIamarn_def)
  from assms(1) have "sorted_wrt (\<lambda>a b. \<not> lessIamarn b a) ?a" by (simp add: sortsByIamarn_def)
  then have sa: "sorted (map keyOf ?a)" by (simp only: sorted_wrt_lessIamarn)
  from assms(1) have "sorted_wrt (\<lambda>a b. \<not> lessIamarn b a) ?b" by (simp add: sortsByIamarn_def)
  then have sb: "sorted (map keyOf ?b)" by (simp only: sorted_wrt_lessIamarn)
  from ma assms(4) have m: "mset ?a = mset xs" by simp
  then have "set ?a = set xs" by (rule mset_eq_setD)
  with keyOf_inj [OF assms(2,3)] have inj: "inj_on keyOf (set ?a)" by simp
  from m mb have "mset ?a = mset ?b" by simp
  then show ?thesis using sa sb inj by (rule sorted_by_key_unique)
qed


lemma list_all_mset: "mset xs' = mset xs \<Longrightarrow> list_all P xs' = list_all P xs"
  using mset_eq_setD [of xs' xs] by (simp add: list_all_iff)

text \<open>
  C4, as amended. The comparison of \<open>readIAMIdentityMapping\<close> does not depend on the
  order of its two input lists when, in each list, entries with the same \<open>iamarn\<close>
  are the same entry (so in particular when the \<open>iamarn\<close> values of a list are
  pairwise distinct): with every entry carrying a string under \<open>iamarn\<close>, and
  \<open>sort.Slice\<close> returning a sorted permutation of its input, permuting either list
  before the sort gives the same diff.
\<close>

theorem sortAndDiff_order_independent:
  assumes "sortsByIamarn env"
    and "list_all (\<lambda>e. iamarn e \<noteq> None) remote" and "list_all (\<lambda>e. iamarn e \<noteq> None) current"
    and "keysDistinguish remote" and "keysDistinguish current"
    and "mset remote' = mset remote" and "mset current' = mset current"
  shows "sortAndDiff env remote' current' = sortAndDiff env remote current"
proof -
  from assms(2) have r: "list_all (\<lambda>e. iamarn e \<noteq> None) remote'"
    by (simp only: list_all_mset [OF assms(6)])
  from assms(3) have c: "list_all (\<lambda>e. iamarn e \<noteq> None) current'"
    by (simp only: list_all_mset [OF assms(7)])
  have "sortSlice env lessIamarn remote' = sortSlice env lessIamarn remote"
    using assms(1,2,4,6) by (rule sortSlice_perm)
  moreover have "sortSlice env lessIamarn current' = sortSlice env lessIamarn current"
    using assms(1,3,5,7) by (rule sortSlice_perm)
  ultimately show ?thesis
    using r c assms(2,3) by (simp add: sortAndDiff_def sortByIamarn_ok)
qed


lemma mset_insertBack: "mset (insertBack lt x acc) = add_mset x (mset acc)"
  by (induction acc) auto

lemma mset_foldl_insertBack:
  "mset (foldl (\<lambda>acc x. insertBack lt x acc) acc xs) = mset acc + mset xs"
  by (induction xs arbitrary: acc) (auto simp: mset_insertBack)

lemma set_insertBack: "set (insertBack lt x acc) = insert x (set acc)"
  by (induction acc) auto

lemma desc_insertBack:
  "sorted_wrt (\<lambda>a b. keyOf b \<le> keyOf a) acc \<Longrightarrow>
   sorted_wrt (\<lambda>a b. keyOf b \<le> keyOf a) (insertBack lessIamarn x acc)"
  by (induction acc) (auto simp: set_insertBack lessIamarn_def)

lemma desc_foldl_insertBack:
  "sorted_wrt (\<lambda>a b. keyOf b \<le> keyOf a) acc \<Longrightarrow>
   sorted_wrt (\<lambda>a b. keyOf b \<le> keyOf a) (foldl (\<lambda>acc x. insertBack lessIamarn x acc) acc xs)"
  by (induction xs arbitrary: acc) (auto simp: desc_insertBack)

lemma insertionSort_sorts: "sortsByIamarn (env\<lparr>sortSlice := insertionSort\<rparr>)"
  using desc_foldl_insertBack [of "[]"]
  by (simp add: sortsByIamarn_def insertionSort_def mset_foldl_insertBack sorted_wrt_rev
      lessIamarn_def not_less)

lemma exampleEnv_sorts: "sortsByIamarn exampleEnv"
  using insertionSort_sorts [of exampleEnv] by (simp add: exampleEnv_def)

lemma adminRole_differ: "adminRoleAgain \<noteq> adminRole"
proof
  assume "adminRoleAgain = adminRole"
  then have "adminRoleAgain ''username'' = adminRole ''username''" by simp
  then show False by (simp add: adminRoleAgain_def adminRole_def)
qed

lemma iamarn_examples:
  "iamarn adminRole = Some ''arn:aws:iam::1234:role/admin''"
  "iamarn adminRoleAgain = Some ''arn:aws:iam::1234:role/admin''"
  "iamarn devUser = Some ''arn:aws:iam::1234:user/dev''"
  by (simp_all add: iamarn_def adminRole_def adminRoleAgain_def devUser_def)

text \<open>
  C4 as stated, for every pair of lists, fails: the sort compares the \<open>iamarn\<close>
  alone and keeps two entries that share it in their input order. A remote list with
  one role mapped twice (to two user names) is equal to the declared list in one order
  and differs from it in the other.
\<close>

theorem sortAndDiff_order_counterexample:
  "mset [adminRoleAgain, adminRole] = mset [adminRole, adminRoleAgain]
   \<and> list_all (\<lambda>e. iamarn e \<noteq> None) [adminRole, adminRoleAgain]
   \<and> sortAndDiff exampleEnv [adminRole, adminRoleAgain] [adminRole, adminRoleAgain] = Inr []
   \<and> sortAndDiff exampleEnv [adminRoleAgain, adminRole] [adminRole, adminRoleAgain]
        = Inr ''- remote + current''"
  using adminRole_differ
  by (simp add: sortAndDiff_def sortByIamarn_def iamarn_examples exampleEnv_def insertionSort_def
      lessIamarn_def keyOf_def equalOrNot_def)

theorem sortAndDiff_order_independent_witness:
  "sortAndDiff exampleEnv [devUser, adminRole] [adminRole]
     = sortAndDiff exampleEnv [adminRole, devUser] [adminRole]"
  using sortAndDiff_order_independent [of exampleEnv "[adminRole, devUser]" "[adminRole]"
      "[devUser, adminRole]" "[adminRole]"] exampleEnv_sorts
  by (simp add: iamarn_examples keysDistinguish_def)

section \<open>The replacement of \<open>rolearn\<close> and \<open>userarn\<close> by \<open>iamarn\<close>\<close>

lemma Replace_Nil: "Replace [] old new = []"
  by (subst Replace.simps) simp

lemma Replace_hit: "old \<noteq> [] \<Longrightarrow> Replace (old @ rest) old new = new @ Replace rest old new"
  by (subst Replace.simps) simp

lemma Replace_miss:
  "old \<noteq> [] \<Longrightarrow> \<not> prefix old (c # cs) \<Longrightarrow> Replace (c # cs) old new = c # Replace cs old new"
  by (subst Replace.simps) simp

lemma Replace_absent: "\<not> sublist old s \<Longrightarrow> Replace s old new = s"
proof (induction s)
  case Nil
  then show ?case by (simp add: Replace_Nil)
next
  case (Cons c cs)
  then have "old \<noteq> []" by auto
  moreover from Cons.prems have "\<not> prefix old (c # cs)" by auto
  moreover from Cons.prems have "\<not> sublist old cs" by (simp add: sublist_Cons_right)
  ultimately show ?case using Cons.IH by (simp add: Replace_miss)
qed

text \<open>A piece without the word, closed by a character the word does not hold, is copied.\<close>

lemma Replace_skip:
  assumes "old \<noteq> []" and "c \<notin> set old" and "\<not> sublist old p"
  shows "Replace (p @ c # rest) old new = p @ c # Replace rest old new"
  using assms(3)
proof (induction p)
  case Nil
  from assms(1,2) have "\<not> prefix old (c # rest)"
    by (cases old) auto
  with assms(1) show ?case by (simp add: Replace_miss)
next
  case (Cons x p)
  have "\<not> prefix old ((x # p) @ c # rest)"
  proof
    assume "prefix old ((x # p) @ c # rest)"
    then have "prefix old (x # p) \<or> (\<exists>us. old = (x # p) @ us \<and> prefix us (c # rest))"
      by (simp only: prefix_append)
    then show False
    proof
      assume "prefix old (x # p)"
      with Cons.prems show False by auto
    next
      assume "\<exists>us. old = (x # p) @ us \<and> prefix us (c # rest)"
      then obtain us where us: "old = (x # p) @ us" "prefix us (c # rest)" by blast
      show False
      proof (cases us)
        case Nil
        with us(1) have "prefix old (x # p)" by simp
        with Cons.prems show False by auto
      next
        case (Cons u us')
        with us(2) have "u = c" by simp
        with Cons us(1) have "c \<in> set old" by simp
        with assms(2) show False by simp
      qed
    qed
  qed
  moreover from Cons.prems have "\<not> sublist old p" by (simp add: sublist_Cons_right)
  ultimately show ?case using assms(1) Cons.IH by (simp add: Replace_miss)
qed

lemma Replace_at_hit:
  "old \<noteq> [] \<Longrightarrow> prefix old s \<Longrightarrow>
   Replace s old new = new @ Replace (drop (length old) s) old new"
  by (subst Replace.simps) simp

text \<open>What \<open>Replace\<close> returns starts with a word only if its input did, when the word
  does not hold the first character of the replacement.\<close>

lemma Replace_prefix_back:
  assumes "old \<noteq> []" and "new \<noteq> []"
  shows "hd new \<notin> set w \<Longrightarrow> prefix w (Replace s old new) \<Longrightarrow> prefix w s"
proof (induction w arbitrary: s)
  case Nil
  then show ?case by simp
next
  case (Cons x w)
  show ?case
  proof (cases "prefix old s")
    case True
    with assms(1) have "Replace s old new = new @ Replace (drop (length old) s) old new"
      by (rule Replace_at_hit)
    with Cons.prems(2) assms(2) have "x = hd new" by (cases new) auto
    with Cons.prems(1) show ?thesis by simp
  next
    case False
    show ?thesis
    proof (cases s)
      case Nil
      with Cons.prems(2) show ?thesis by (simp add: Replace_Nil)
    next
      case (Cons c cs)
      with False assms(1) have r: "Replace s old new = c # Replace cs old new"
        by (simp add: Replace_miss)
      with Cons.prems(2) have "x = c" and "prefix w (Replace cs old new)" by simp_all
      moreover from Cons.prems(1) have "hd new \<notin> set w" by simp
      ultimately have "prefix w cs" using Cons.IH by blast
      with \<open>x = c\<close> Cons show ?thesis by simp
    qed
  qed
qed

lemma sublist_behind_iamarn:
  "sublist ''rolearn'' (CHR ''i'' # CHR ''a'' # CHR ''m'' # CHR ''a'' # CHR ''r'' # CHR ''n'' # t)
     = sublist ''rolearn'' t"
  "sublist ''userarn'' (CHR ''i'' # CHR ''a'' # CHR ''m'' # CHR ''a'' # CHR ''r'' # CHR ''n'' # t)
     = sublist ''userarn'' t"
  by (simp_all add: sublist_Cons_right)

lemma words_apart:
  "\<not> sublist ''rolearn'' ''userarn''" "\<not> sublist ''userarn'' ''rolearn''"
  "\<not> sublist ''rolearn'' ''iamarn''" "\<not> sublist ''userarn'' ''iamarn''"
  by (simp_all add: sublist_Cons_right)

text \<open>Replacing by \<open>iamarn\<close> brings in no instance of either word.\<close>

lemma Replace_keeps_absent:
  assumes "w = ''rolearn'' \<or> w = ''userarn''"
  shows "old \<noteq> [] \<Longrightarrow> new = ''iamarn'' \<Longrightarrow> \<not> sublist w s \<Longrightarrow> \<not> sublist w (Replace s old new)"
proof (induction s old new rule: Replace.induct)
  case (1 s old new)
  show ?case
  proof (cases "prefix old s")
    case True
    from 1(5) have "\<not> sublist w (drop (length old) s)"
      using sublist_drop [of "length old" s] sublist_order.order_trans by blast
    with 1(1) [OF 1(3) True 1(3) 1(4)] have "\<not> sublist w (Replace (drop (length old) s) old new)" .
    moreover from 1(3) True have "Replace s old new = new @ Replace (drop (length old) s) old new"
      by (rule Replace_at_hit)
    ultimately show ?thesis using assms 1(4) by (auto simp: sublist_behind_iamarn)
  next
    case False
    show ?thesis
    proof (cases s)
      case Nil
      with assms show ?thesis by (auto simp: Replace_Nil)
    next
      case (Cons c cs)
      with False 1(3) have r: "Replace s old new = c # Replace cs old new"
        by (simp add: Replace_miss)
      from 1(5) Cons have "\<not> sublist w cs" by (simp add: sublist_Cons_right)
      with 1(2) [OF 1(3) False Cons 1(3) 1(4)] have a: "\<not> sublist w (Replace cs old new)" .
      have b: "\<not> prefix w (Replace s old new)"
      proof
        assume "prefix w (Replace s old new)"
        moreover from assms 1(4) have "hd new \<notin> set w" by auto
        moreover from 1(4) have "new \<noteq> []" by simp
        ultimately have "prefix w s" using 1(3) Replace_prefix_back by blast
        with 1(5) show False by auto
      qed
      from a b r show ?thesis by (simp add: sublist_Cons_right)
    qed
  qed
qed

text \<open>After the replacement no instance of the replaced word is left.\<close>

lemma Replace_removes:
  shows "old = ''rolearn'' \<or> old = ''userarn'' \<Longrightarrow> new = ''iamarn'' \<Longrightarrow>
    \<not> sublist old (Replace s old new)"
proof (induction s old new rule: Replace.induct)
  case (1 s old new)
  from 1(3) have ne: "old \<noteq> []" by auto
  show ?case
  proof (cases "prefix old s")
    case True
    from 1(1) [OF ne True 1(3) 1(4)] have "\<not> sublist old (Replace (drop (length old) s) old new)" .
    moreover from ne True have "Replace s old new = new @ Replace (drop (length old) s) old new"
      by (rule Replace_at_hit)
    ultimately show ?thesis using 1(3) 1(4) by (auto simp: sublist_behind_iamarn)
  next
    case False
    show ?thesis
    proof (cases s)
      case Nil
      with ne show ?thesis by (simp add: Replace_Nil)
    next
      case (Cons c cs)
      with False ne have r: "Replace s old new = c # Replace cs old new"
        by (simp add: Replace_miss)
      from 1(2) [OF ne False Cons 1(3) 1(4)] have a: "\<not> sublist old (Replace cs old new)" .
      have b: "\<not> prefix old (Replace s old new)"
      proof
        assume "prefix old (Replace s old new)"
        moreover from 1(3) 1(4) have "hd new \<notin> set old" by auto
        moreover from 1(4) have "new \<noteq> []" by simp
        ultimately have "prefix old s" using ne Replace_prefix_back by blast
        with False show False by simp
      qed
      from a b r show ?thesis by (simp add: sublist_Cons_right)
    qed
  qed
qed

lemma normalizeIAMKeys_clean: "\<not> mentions (normalizeIAMKeys s)"
proof -
  have "\<not> sublist ''rolearn'' (Replace s ''rolearn'' ''iamarn'')"
    by (rule Replace_removes) simp_all
  then have "\<not> sublist ''rolearn'' (Replace (Replace s ''rolearn'' ''iamarn'') ''userarn'' ''iamarn'')"
    using Replace_keeps_absent [of "''rolearn''" "''userarn''" "''iamarn''"
        "Replace s ''rolearn'' ''iamarn''"]
    by simp
  moreover have "\<not> sublist ''userarn'' (Replace (Replace s ''rolearn'' ''iamarn'') ''userarn'' ''iamarn'')"
    by (rule Replace_removes) simp_all
  ultimately show ?thesis by (simp add: mentions_def normalizeIAMKeys_def)
qed

lemma normalizeIAMKeys_unmentioned: "\<not> mentions s \<Longrightarrow> normalizeIAMKeys s = s"
  by (simp add: mentions_def normalizeIAMKeys_def Replace_absent)

lemma normalizeIAMKeys_twice: "normalizeIAMKeys (normalizeIAMKeys s) = normalizeIAMKeys s"
  using normalizeIAMKeys_clean by (rule normalizeIAMKeys_unmentioned)

lemma renderText_Cons:
  "renderText ((plain, q) # segs, rest) =
     plain @ quoteChar # (body q @ quoteChar # renderText (segs, rest))"
  by (simp add: renderText_def)

lemma renderText_Nil: "renderText ([], rest) = rest"
  by (simp add: renderText_def)

text \<open>One replacement over a text in which the word stands only as a whole key.\<close>

lemma Replace_renderText:
  assumes "old = ''rolearn'' \<or> old = ''userarn''"
    and "\<not> sublist old rest"
  shows "list_all (\<lambda>(plain, q). \<not> sublist old plain \<and> (q = Key old \<or> \<not> sublist old (body q))) segs
    \<Longrightarrow> Replace (renderText (segs, rest)) old ''iamarn''
        = renderText (map (\<lambda>(plain, q). (plain, renameQuoted old q)) segs, rest)"
proof (induction segs)
  case Nil
  with assms(2) show ?case by (simp add: renderText_Nil Replace_absent)
next
  case (Cons seg segs)
  obtain plain q where seg: "seg = (plain, q)" by (cases seg)
  from assms(1) have ne: "old \<noteq> []" and qc: "quoteChar \<notin> set old"
    by (auto simp: quoteChar_def)
  from Cons.prems seg have p: "\<not> sublist old plain"
    and q: "q = Key old \<or> \<not> sublist old (body q)"
    and rest: "list_all (\<lambda>(plain, q). \<not> sublist old plain \<and> (q = Key old \<or> \<not> sublist old (body q))) segs"
    by simp_all
  let ?tail = "renderText (segs, rest)"
  let ?tail' = "renderText (map (\<lambda>(plain, q). (plain, renameQuoted old q)) segs, rest)"
  from rest have ih: "Replace ?tail old ''iamarn'' = ?tail'" by (rule Cons.IH)
  have close: "Replace (quoteChar # ?tail) old ''iamarn'' = quoteChar # ?tail'"
    using Replace_skip [OF ne qc, of "[]" ?tail "''iamarn''"] ih ne by simp
  have inner: "Replace (body q @ quoteChar # ?tail) old ''iamarn''
      = body (renameQuoted old q) @ quoteChar # ?tail'"
  proof (cases "q = Key old")
    case True
    then show ?thesis using Replace_hit [OF ne, of "quoteChar # ?tail" "''iamarn''"] close by simp
  next
    case False
    with q have nb: "\<not> sublist old (body q)" by simp
    from False have "body (renameQuoted old q) = body q" by (cases q) auto
    then show ?thesis using Replace_skip [OF ne qc nb, of ?tail "''iamarn''"] ih by simp
  qed
  have "Replace (plain @ quoteChar # (body q @ quoteChar # ?tail)) old ''iamarn''
      = plain @ quoteChar # Replace (body q @ quoteChar # ?tail) old ''iamarn''"
    using ne qc p by (rule Replace_skip)
  with inner seg show ?case by (simp add: renderText_Cons)
qed

lemma normalizeIAMKeys_renderText:
  assumes "wordsOnlyAsKeys doc"
  shows "normalizeIAMKeys (renderText doc) = renderText (renameKeys doc)"
proof -
  obtain segs rest where doc: "doc = (segs, rest)" by (cases doc)
  let ?segs1 = "map (\<lambda>(plain, q). (plain, renameQuoted ''rolearn'' q)) segs"
  from assms doc have r: "\<not> sublist ''rolearn'' rest" "\<not> sublist ''userarn'' rest"
    by (simp_all add: wordsOnlyAsKeys_def mentions_def)
  from assms doc have all: "\<forall>(plain, q) \<in> set segs. \<not> mentions plain \<and> onlyAsKey q"
    by (simp add: wordsOnlyAsKeys_def list_all_iff)
  have h1: "list_all (\<lambda>(plain, q). \<not> sublist ''rolearn'' plain
      \<and> (q = Key ''rolearn'' \<or> \<not> sublist ''rolearn'' (body q))) segs"
    unfolding list_all_iff
  proof (intro ballI)
    fix seg assume "seg \<in> set segs"
    with all obtain plain q where "seg = (plain, q)" "\<not> mentions plain" "onlyAsKey q"
      by (cases seg) auto
    then show "case seg of (plain, q) \<Rightarrow> \<not> sublist ''rolearn'' plain
        \<and> (q = Key ''rolearn'' \<or> \<not> sublist ''rolearn'' (body q))"
      using words_apart by (cases q) (auto simp: mentions_def)
  qed
  have h2: "list_all (\<lambda>(plain, q). \<not> sublist ''userarn'' plain
      \<and> (q = Key ''userarn'' \<or> \<not> sublist ''userarn'' (body q))) ?segs1"
    unfolding list_all_iff
  proof (intro ballI)
    fix seg1 assume "seg1 \<in> set ?segs1"
    then obtain seg where "seg \<in> set segs" and s1: "seg1 = (fst seg, renameQuoted ''rolearn'' (snd seg))"
      by (auto simp: case_prod_beta)
    with all obtain plain q where "seg = (plain, q)" "\<not> mentions plain" "onlyAsKey q"
      by (cases seg) auto
    with s1 show "case seg1 of (plain, q) \<Rightarrow> \<not> sublist ''userarn'' plain
        \<and> (q = Key ''userarn'' \<or> \<not> sublist ''userarn'' (body q))"
      using words_apart by (cases q) (auto simp: mentions_def)
  qed
  have e1: "Replace (renderText (segs, rest)) ''rolearn'' ''iamarn'' = renderText (?segs1, rest)"
    using r(1) h1 by (intro Replace_renderText) simp_all
  have e2: "Replace (renderText (?segs1, rest)) ''userarn'' ''iamarn''
      = renderText (map (\<lambda>(plain, q). (plain, renameQuoted ''userarn'' q)) ?segs1, rest)"
    using r(2) h2 by (intro Replace_renderText) simp_all
  have e3: "map (\<lambda>(plain, q). (plain, renameQuoted ''userarn'' q)) ?segs1
      = map (\<lambda>(plain, q). (plain, renameQuoted ''userarn'' (renameQuoted ''rolearn'' q))) segs"
    by (induction segs) auto
  have "normalizeIAMKeys (renderText doc)
      = Replace (Replace (renderText (segs, rest)) ''rolearn'' ''iamarn'') ''userarn'' ''iamarn''"
    by (simp add: normalizeIAMKeys_def doc)
  also have "\<dots> = renderText
      (map (\<lambda>(plain, q). (plain, renameQuoted ''userarn'' (renameQuoted ''rolearn'' q))) segs, rest)"
    by (simp only: e1 e2 e3)
  also have "\<dots> = renderText (renameKeys doc)"
    by (simp add: renameKeys_def doc)
  finally show ?thesis .
qed

text \<open>
  C5, as amended. The normalization of \<open>runGetIAMIdentityMapping\<close> is idempotent: on
  text it has produced it changes nothing. It is lossless for an output in which
  \<open>rolearn\<close> and \<open>userarn\<close> stand only as whole object keys (in no string value, in
  no other key and nowhere outside the string literals): the normalized text is then
  the same text with those keys renamed to \<open>iamarn\<close> and nothing else changed.
\<close>

theorem normalizeIAMKeys_idempotent_lossless:
  "normalizeIAMKeys (normalizeIAMKeys s) = normalizeIAMKeys s
   \<and> (wordsOnlyAsKeys doc \<longrightarrow> normalizeIAMKeys (renderText doc) = renderText (renameKeys doc))"
  using normalizeIAMKeys_twice normalizeIAMKeys_renderText by blast

lemma roleMapping_ok: "wordsOnlyAsKeys roleMapping"
  by (simp add: wordsOnlyAsKeys_def roleMapping_def mentions_def sublist_Cons_right)

theorem normalizeIAMKeys_idempotent_lossless_witness:
  "normalizeIAMKeys (normalizeIAMKeys (renderText roleMapping)) = normalizeIAMKeys (renderText roleMapping)
   \<and> normalizeIAMKeys (renderText roleMapping) =
       renderText ([(''[{'', Key ''iamarn''), ('':'', Str ''arn:aws:iam::1234:role/admin''),
                    ('','', Key ''username''), ('':'', Str ''admin'')], ''}]'')"
proof -
  note inst = normalizeIAMKeys_idempotent_lossless [of "renderText roleMapping" roleMapping]
  from inst have "normalizeIAMKeys (normalizeIAMKeys (renderText roleMapping))
      = normalizeIAMKeys (renderText roleMapping)"
    by (rule conjunct1)
  moreover from inst roleMapping_ok
  have "normalizeIAMKeys (renderText roleMapping) = renderText (renameKeys roleMapping)"
    by blast
  moreover have "renameKeys roleMapping =
      ([(''[{'', Key ''iamarn''), ('':'', Str ''arn:aws:iam::1234:role/admin''),
        ('','', Key ''username''), ('':'', Str ''admin'')], ''}]'')"
    by (simp add: renameKeys_def roleMapping_def)
  ultimately show ?thesis by simp
qed

lemma userarnSync_text:
  "normalizeIAMKeys (renderText userarnSyncMapping) =
     renderText ([(''[{'', Key ''iamarn''), ('':'', Str ''arn:aws:iam::1234:role/iamarn-sync''),
                  ('','', Key ''username''), ('':'', Str ''sync'')], ''}]'')"
  by (simp add: normalizeIAMKeys_def renderText_def userarnSyncMapping_def quoteChar_def
      Replace.simps)

text \<open>
  C5 as stated, for every well-formed output, fails: the replacement is textual
  and also rewrites string values. In the mapping of the role \<open>userarn-sync\<close> the key
  is renamed and the role's ARN is changed with it.
\<close>

theorem normalizeIAMKeys_lossless_counterexample:
  "normalizeIAMKeys (renderText userarnSyncMapping) =
     renderText ([(''[{'', Key ''iamarn''), ('':'', Str ''arn:aws:iam::1234:role/iamarn-sync''),
                  ('','', Key ''username''), ('':'', Str ''sync'')], ''}]'')
   \<and> renameKeys userarnSyncMapping =
       ([(''[{'', Key ''iamarn''), ('':'', Str ''arn:aws:iam::1234:role/userarn-sync''),
         ('','', Key ''username''), ('':'', Str ''sync'')], ''}]'')
   \<and> normalizeIAMKeys (renderText userarnSyncMapping) \<noteq> renderText (renameKeys userarnSyncMapping)"
proof -
  have r: "renameKeys userarnSyncMapping =
       ([(''[{'', Key ''iamarn''), ('':'', Str ''arn:aws:iam::1234:role/userarn-sync''),
         ('','', Key ''username''), ('':'', Str ''sync'')], ''}]'')"
    by (simp add: renameKeys_def userarnSyncMapping_def)
  have "normalizeIAMKeys (renderText userarnSyncMapping) \<noteq> renderText (renameKeys userarnSyncMapping)"
    unfolding userarnSync_text r by (simp add: renderText_def)
  with userarnSync_text r show ?thesis by simp
qed

end
